theory Spec2Isabelle
  imports Main "HOL-Library.Word"
begin

unbundle bit_operations_syntax

section \<open>The UDP echo server of server.c\<close>

text \<open>
  The program is one C function, \<open>main\<close>, with two helpers. Everything it does is a
  system call, so the model is a function from the results of the system calls (the
  inputs) to the list of calls it makes with their arguments and results (a trace, in
  the order of the calls), together with the local variables of \<open>main\<close>. What the kernel
  does with a call is not part of the program: it is read off the trace by the small
  interpretation functions of the second section.
\<close>

subsection \<open>Constants\<close>

type_synonym byte = "8 word"
type_synonym sockaddr = "byte list"

definition MAX_BUFSIZE :: nat where
  "MAX_BUFSIZE = 1472"

definition EXIT_SUCCESS :: int where
  "EXIT_SUCCESS = 0"

definition EXIT_FAILURE :: int where
  "EXIT_FAILURE = 1"

text \<open>Values of the Linux headers the file includes (errno.h, fcntl.h, sys/epoll.h,
  sys/socket.h).\<close>

definition EINTR :: int where
  "EINTR = 4"

definition EAGAIN :: int where
  "EAGAIN = 11"

definition O_NONBLOCK :: int where
  "O_NONBLOCK = 2048"

definition SOL_SOCKET :: int where
  "SOL_SOCKET = 1"

definition SO_REUSEPORT :: int where
  "SO_REUSEPORT = 15"

definition EPOLLIN :: "32 word" where
  "EPOLLIN = 1"

definition EPOLLOUT :: "32 word" where
  "EPOLLOUT = 4"

definition EPOLLERR :: "32 word" where
  "EPOLLERR = 8"

definition EPOLLHUP :: "32 word" where
  "EPOLLHUP = 16"

definition EPOLLONESHOT :: "32 word" where
  "EPOLLONESHOT = 1073741824"

definition EPOLL_CTL_ADD :: int where
  "EPOLL_CTL_ADD = 1"

definition EPOLL_CTL_MOD :: int where
  "EPOLL_CTL_MOD = 3"

text \<open>\<open>sizeof(struct sockaddr)\<close>, the value stored in \<open>insaddrlen\<close> before each receive.\<close>

definition SIZEOF_SOCKADDR :: "32 word" where
  "SIZEOF_SOCKADDR = 16"

subsection \<open>Results of the system calls\<close>

text \<open>
  \<open>epoll_wait(epfd, &events, 1, -1)\<close> has no timeout: it returns a negative value with
  an errno, or one event whose mask it stores in \<open>events.events\<close>.
  \<open>recvfrom\<close> returns a negative value with an errno, or the bytes it stored at the
  start of the buffer (their number is \<open>nread\<close>), the sender's address and its length.
  \<open>sendto\<close> returns a negative value with an errno, or the number of bytes it took.
\<close>

datatype wait_res = WaitFail int | WaitReady "32 word"

datatype recv_res = RecvFail int | RecvOk "byte list" sockaddr "32 word"

datatype send_res = SendFail int | SendOk nat

text \<open>The results one pass through the loop body can consume.\<close>

record io =
  wait :: wait_res
  recv :: recv_res
  send :: send_res
  ctl_rc :: int

text \<open>The results the start-up code consumes, in the order of the calls.\<close>

record setup_io =
  malloc_ok :: bool
  socket_rc :: int
  getfl_rc :: int
  setfl_rc :: int
  bind_rc :: int
  setsockopt_rc :: int
  epoll_create1_rc :: int
  ctl_add_rc :: int

subsection \<open>The trace\<close>

text \<open>
  One entry per call, with its arguments and its result. \<open>Sendto\<close> carries the cursor
  (\<open>bufptr\<close> as an offset from \<open>buf\<close>), the length, the bytes of the buffer that the
  call is given, the destination and its length, and the result. \<open>Perror_diag\<close> is what
  the macro \<open>ON_ERROR_PERROR_GOTO\<close> writes to stderr: the function name, the line of the
  macro call, and the text of its \<open>func\<close> argument, which labels the line of \<open>perror\<close>.
  \<open>Alloc_diag\<close> is the message of the failed \<open>malloc\<close>.
\<close>

datatype action =
    Malloc nat bool
  | Socket int
  | Fcntl_getfl int int
  | Fcntl_setfl int int int
  | Bind int nat string int
  | Setsockopt int int int int int
  | Epoll_create1 int
  | Epoll_ctl int int int "32 word" int
  | Epoll_wait int wait_res
  | Recvfrom int nat recv_res
  | Sendto int "64 word" "64 word" "byte list" sockaddr "32 word" send_res
  | Perror_diag string nat string
  | Alloc_diag nat
  | Close int
  | Free

subsection \<open>The local variables of main\<close>

text \<open>
  \<open>buf\<close> is the content of the allocated region, \<open>bufptr\<close> the offset of the cursor from
  its start, \<open>datasize\<close> a \<open>size_t\<close> (64 bits). The variables that \<open>main\<close> does not
  initialise (and the content of the fresh region) have whatever value the starting
  record gives them.
\<close>

record locals =
  epfd :: int
  ret :: int
  sockfd :: int
  insaddr :: sockaddr
  insaddrlen :: "32 word"
  ev_events :: "32 word"
  events_events :: "32 word"
  buf :: "byte list"
  bufptr :: "64 word"
  datasize :: "64 word"

datatype flow = Continue locals | Goto_out locals | Return int

subsection \<open>The helpers\<close>

text \<open>\<open>set_nonblock\<close> (lines 65-71): one \<open>setsockopt\<close>, whose result it returns.\<close>

definition set_nonblock :: "int \<Rightarrow> int \<Rightarrow> action list \<times> int" where
  "set_nonblock fd sso_rc = ([Setsockopt fd SOL_SOCKET SO_REUSEPORT 1 sso_rc], sso_rc)"

text \<open>\<open>set_reuseport\<close> (lines 76-87): \<open>fcntl(F_GETFL)\<close>, then \<open>fcntl(F_SETFL)\<close> with
  \<open>O_NONBLOCK\<close> added.\<close>

definition set_reuseport :: "int \<Rightarrow> int \<Rightarrow> int \<Rightarrow> action list \<times> int" where
  "set_reuseport fd flags sfl_rc =
     (if flags = - 1 then ([Fcntl_getfl fd flags], - 1)
      else if - 1 = sfl_rc
        then ([Fcntl_getfl fd flags, Fcntl_setfl fd (flags OR O_NONBLOCK) sfl_rc], - 1)
      else ([Fcntl_getfl fd flags, Fcntl_setfl fd (flags OR O_NONBLOCK) sfl_rc], 0))"

subsection \<open>Start-up (lines 104-154)\<close>

definition fatal :: "locals \<Rightarrow> nat \<Rightarrow> string \<Rightarrow> action list \<times> flow" where
  "fatal s line label =
     ([Perror_diag ''main'' line label], Goto_out (s\<lparr>ret := EXIT_FAILURE\<rparr>))"

definition main_setup :: "setup_io \<Rightarrow> locals \<Rightarrow> action list \<times> flow" where
  "main_setup e l0 =
     (let s = l0\<lparr>epfd := - 1, ret := EXIT_SUCCESS\<rparr> in
      if \<not> malloc_ok e
        then ([Malloc MAX_BUFSIZE False, Alloc_diag MAX_BUFSIZE], Return EXIT_FAILURE)
      else
        let s = s\<lparr>sockfd := socket_rc e\<rparr>;
            t1 = [Malloc MAX_BUFSIZE True, Socket (sockfd s)] in
        if \<not> sockfd s \<ge> 0 then (t1 @ fst (fatal s 117 ''sockfd''), snd (fatal s 117 ''sockfd''))
        else
          let r = set_reuseport (sockfd s) (getfl_rc e) (setfl_rc e);
              t2 = t1 @ fst r in
          if \<not> snd r = 0 then (t2 @ fst (fatal s 123 ''sockfd''), snd (fatal s 123 ''sockfd''))
          else
            let t3 = t2 @ [Bind (sockfd s) 5123 ''127.0.0.1'' (bind_rc e)] in
            if \<not> bind_rc e \<ge> 0 then (t3 @ fst (fatal s 134 ''bind''), snd (fatal s 134 ''bind''))
            else
              let r = set_nonblock (sockfd s) (setsockopt_rc e);
                  t4 = t3 @ fst r in
              if \<not> snd r = 0 then (t4 @ fst (fatal s 137 ''bind''), snd (fatal s 137 ''bind''))
              else
                let s = s\<lparr>epfd := epoll_create1_rc e\<rparr>;
                    t5 = t4 @ [Epoll_create1 (epfd s)] in
                if \<not> epfd s \<ge> 0
                  then (t5 @ fst (fatal s 143 ''epoll_create1''),
                        snd (fatal s 143 ''epoll_create1''))
                else
                  let s = s\<lparr>ev_events := EPOLLIN OR EPOLLONESHOT\<rparr>;
                      t6 = t5 @ [Epoll_ctl (epfd s) EPOLL_CTL_ADD (sockfd s) (ev_events s)
                                   (ctl_add_rc e)] in
                  if \<not> ctl_add_rc e = 0
                    then (t6 @ fst (fatal s 154 ''epoll_ctl''), snd (fatal s 154 ''epoll_ctl''))
                  else (t6, Continue s))"

subsection \<open>One pass through the loop body (lines 160-232)\<close>

text \<open>The call at lines 231-232: re-arm with \<open>ev\<close>, fatal when it fails.\<close>

definition rearm :: "locals \<Rightarrow> int \<Rightarrow> action list \<times> flow" where
  "rearm s rc =
     (let a = [Epoll_ctl (epfd s) EPOLL_CTL_MOD (sockfd s) (ev_events s) rc] in
      if \<not> rc = 0 then (a @ fst (fatal s 232 ''epoll_ctl''), snd (fatal s 232 ''epoll_ctl''))
      else (a, Continue s))"

text \<open>The branch of lines 171-203.\<close>

definition on_readable :: "locals \<Rightarrow> io \<Rightarrow> action list \<times> flow" where
  "on_readable s i =
     (let s = s\<lparr>insaddrlen := SIZEOF_SOCKADDR\<rparr>;
          a = [Recvfrom (sockfd s) MAX_BUFSIZE (recv i)] in
      case recv i of
        RecvFail errno \<Rightarrow>
          if errno \<noteq> EINTR \<and> errno \<noteq> EAGAIN
            then (a @ fst (fatal s 183 ''recvfrom''), snd (fatal s 183 ''recvfrom''))
          else
            let r = rearm (s\<lparr>ev_events := EPOLLIN OR EPOLLONESHOT\<rparr>) (ctl_rc i)
            in (a @ fst r, snd r)
      | RecvOk d from fromlen \<Rightarrow>
          let s = s\<lparr>buf := d @ drop (length d) (buf s), insaddr := from,
                    insaddrlen := fromlen\<rparr>;
              s = s\<lparr>datasize := of_nat (length d)\<rparr>;
              s = s\<lparr>bufptr := 0\<rparr>;
              r = rearm (s\<lparr>ev_events := EPOLLOUT OR EPOLLONESHOT\<rparr>) (ctl_rc i)
          in (a @ fst r, snd r))"

text \<open>The bytes \<open>sendto\<close> is given: \<open>datasize\<close> bytes from the cursor.\<close>

definition send_region :: "locals \<Rightarrow> byte list" where
  "send_region s = take (unat (datasize s)) (drop (unat (bufptr s)) (buf s))"

text \<open>Lines 222-225: the next interest, chosen from \<open>datasize\<close> alone.\<close>

definition next_after_send :: "locals \<Rightarrow> locals" where
  "next_after_send s =
     (if datasize s = 0 then s\<lparr>ev_events := EPOLLIN OR EPOLLONESHOT\<rparr>
      else s\<lparr>ev_events := EPOLLOUT OR EPOLLONESHOT\<rparr>)"

text \<open>The branch of lines 204-226. A transient failure of \<open>sendto\<close> falls through to
  lines 222-225 like a success does.\<close>

definition on_writable :: "locals \<Rightarrow> io \<Rightarrow> action list \<times> flow" where
  "on_writable s i =
     (let a = [Sendto (sockfd s) (bufptr s) (datasize s) (send_region s) (insaddr s)
                 (insaddrlen s) (send i)] in
      case send i of
        SendFail errno \<Rightarrow>
          if errno \<noteq> EINTR \<and> errno \<noteq> EAGAIN
            then (a @ fst (fatal s 214 ''sendto''), snd (fatal s 214 ''sendto''))
          else
            let r = rearm (next_after_send s) (ctl_rc i)
            in (a @ fst r, snd r)
      | SendOk nwritten \<Rightarrow>
          let s = s\<lparr>datasize := datasize s - of_nat nwritten\<rparr>;
              s = s\<lparr>bufptr := bufptr s + of_nat nwritten\<rparr>;
              r = rearm (next_after_send s) (ctl_rc i)
          in (a @ fst r, snd r))"

definition loop_body :: "locals \<Rightarrow> io \<Rightarrow> action list \<times> flow" where
  "loop_body s i =
     (let a = [Epoll_wait (epfd s) (wait i)] in
      case wait i of
        WaitFail errno \<Rightarrow>
          if errno \<noteq> EINTR
            then (a @ fst (fatal s 163 ''epoll_wait''), snd (fatal s 163 ''epoll_wait''))
          else (a, Continue s)
      | WaitReady revents \<Rightarrow>
          let s = s\<lparr>events_events := revents\<rparr>;
              r = (if events_events s AND EPOLLIN \<noteq> 0 then on_readable s i
                   else if events_events s AND EPOLLOUT \<noteq> 0 then on_writable s i
                   else rearm s (ctl_rc i))
          in (a @ fst r, snd r))"

subsection \<open>The loop, the exit path and the program\<close>

text \<open>\<open>while (1)\<close> over the results the environment supplies: it stops when the body jumps
  to \<open>out\<close>, and is still running when the supplied results are used up.\<close>

fun event_loop :: "locals \<Rightarrow> io list \<Rightarrow> action list \<times> flow" where
  "event_loop s [] = ([], Continue s)"
| "event_loop s (i # ios) =
     (case loop_body s i of
        (a, Continue s') \<Rightarrow> (a @ fst (event_loop s' ios), snd (event_loop s' ios))
      | (a, f) \<Rightarrow> (a, f))"

text \<open>Lines 234-240.\<close>

definition main_out :: "locals \<Rightarrow> action list \<times> int" where
  "main_out s =
     ((if epfd s \<ge> 0 then [Close (epfd s)] else []) @
      (if sockfd s \<ge> 0 then [Close (sockfd s)] else []) @ [Free],
      ret s)"

text \<open>What follows the start-up: the loop, then \<open>out\<close>. The exit status is \<open>None\<close> while
  the loop is still running.\<close>

definition finish :: "action list \<times> flow \<Rightarrow> action list \<times> int option" where
  "finish r =
     (case snd r of
        Continue s \<Rightarrow> (fst r, None)
      | Goto_out s \<Rightarrow> (fst r @ fst (main_out s), Some (snd (main_out s)))
      | Return c \<Rightarrow> (fst r, Some c))"

definition main :: "setup_io \<Rightarrow> locals \<Rightarrow> io list \<Rightarrow> action list \<times> int option" where
  "main e l0 ios =
     (case main_setup e l0 of
        (t, Continue s) \<Rightarrow> finish (t @ fst (event_loop s ios), snd (event_loop s ios))
      | (t, f) \<Rightarrow> finish (t, f))"

section \<open>Reading the trace\<close>

subsection \<open>What the environment may answer\<close>

text \<open>
  The program trusts three facts about the kernel; the theorems that need them say so
  through \<open>env_ok\<close>:
  \<^item> \<open>epoll_wait\<close> reports only events of the interest registered for the socket, besides
    \<open>EPOLLERR\<close> and \<open>EPOLLHUP\<close> (between two passes the registered interest is
    \<open>ev.events\<close>);
  \<^item> \<open>recvfrom\<close> stores no more bytes than the length it is given;
  \<^item> \<open>sendto\<close> takes no more bytes than the length it is given.
\<close>

definition env_ok :: "locals \<Rightarrow> io \<Rightarrow> bool" where
  "env_ok s i =
     (case wait i of
        WaitFail errno \<Rightarrow> True
      | WaitReady r \<Rightarrow>
          r AND NOT (ev_events s OR EPOLLERR OR EPOLLHUP) = 0 \<and>
          (if r AND EPOLLIN \<noteq> 0
             then (case recv i of RecvFail errno \<Rightarrow> True
                   | RecvOk d from fromlen \<Rightarrow> length d \<le> MAX_BUFSIZE)
           else if r AND EPOLLOUT \<noteq> 0
             then (case send i of SendFail errno \<Rightarrow> True
                   | SendOk m \<Rightarrow> m \<le> unat (datasize s))
           else True))"

fun env_ok_run :: "locals \<Rightarrow> io list \<Rightarrow> bool" where
  "env_ok_run s [] = True"
| "env_ok_run s (i # ios) =
     (env_ok s i \<and>
      (case snd (loop_body s i) of Continue s' \<Rightarrow> env_ok_run s' ios | _ \<Rightarrow> True))"

subsection \<open>The datagram being echoed\<close>

text \<open>
  The last datagram received and its sender, with the destination and the bytes taken
  of every successful \<open>sendto\<close> since: \<open>None\<close> before the first datagram.
\<close>

type_synonym echo_log = "(byte list \<times> sockaddr \<times> (sockaddr \<times> byte list) list) option"

fun log_step :: "echo_log \<Rightarrow> action \<Rightarrow> echo_log" where
  "log_step l (Recvfrom fd n (RecvOk d from fromlen)) = Some (d, from, [])"
| "log_step (Some (B, a, sent)) (Sendto fd p n region dest destlen (SendOk m)) =
     Some (B, a, sent @ [(dest, take m region)])"
| "log_step l x = l"

definition echo_log_from :: "echo_log \<Rightarrow> action list \<Rightarrow> echo_log" where
  "echo_log_from l acts = foldl log_step l acts"

definition echoed :: "(sockaddr \<times> byte list) list \<Rightarrow> byte list" where
  "echoed sent = concat (map snd sent)"

subsection \<open>The interest the watcher holds\<close>

text \<open>
  A successful \<open>epoll_ctl\<close> registers its event mask. Delivering an event disables a
  registration made with \<open>EPOLLONESHOT\<close> until the next \<open>epoll_ctl\<close>.
\<close>

fun interest_step :: "32 word option \<Rightarrow> action \<Rightarrow> 32 word option" where
  "interest_step w (Epoll_ctl ep op fd ev rc) = (if rc = 0 then Some ev else w)"
| "interest_step w (Epoll_wait ep (WaitReady r)) =
     (case w of None \<Rightarrow> None
      | Some ev \<Rightarrow> if ev AND EPOLLONESHOT \<noteq> 0 then None else Some ev)"
| "interest_step w x = w"

definition interest_from :: "32 word option \<Rightarrow> action list \<Rightarrow> 32 word option" where
  "interest_from w acts = foldl interest_step w acts"

subsection \<open>The socket's options, the open descriptors, the buffer, the diagnostics\<close>

record sock_props =
  reuseport :: bool
  nonblock :: bool

fun sock_step :: "int \<Rightarrow> sock_props \<Rightarrow> action \<Rightarrow> sock_props" where
  "sock_step fd p (Socket fd') =
     (if fd' = fd then \<lparr>reuseport = False, nonblock = False\<rparr> else p)"
| "sock_step fd p (Setsockopt fd' level opt val rc) =
     (if fd' = fd \<and> rc = 0 \<and> level = SOL_SOCKET \<and> opt = SO_REUSEPORT
        then p\<lparr>reuseport := (val \<noteq> 0)\<rparr> else p)"
| "sock_step fd p (Fcntl_setfl fd' flags rc) =
     (if fd' = fd \<and> rc \<noteq> - 1 then p\<lparr>nonblock := (flags AND O_NONBLOCK \<noteq> 0)\<rparr> else p)"
| "sock_step fd p x = p"

definition sock_after :: "int \<Rightarrow> action list \<Rightarrow> sock_props" where
  "sock_after fd acts = foldl (sock_step fd) \<lparr>reuseport = False, nonblock = False\<rparr> acts"

fun fd_step :: "int set \<Rightarrow> action \<Rightarrow> int set" where
  "fd_step F (Socket fd) = (if fd \<ge> 0 then insert fd F else F)"
| "fd_step F (Epoll_create1 fd) = (if fd \<ge> 0 then insert fd F else F)"
| "fd_step F (Close fd) = F - {fd}"
| "fd_step F x = F"

definition open_fds :: "action list \<Rightarrow> int set" where
  "open_fds acts = foldl fd_step {} acts"

fun buf_step :: "bool \<Rightarrow> action \<Rightarrow> bool" where
  "buf_step b (Malloc n ok) = ok"
| "buf_step b Free = False"
| "buf_step b x = b"

definition buf_live :: "action list \<Rightarrow> bool" where
  "buf_live acts = foldl buf_step False acts"

fun is_diag :: "action \<Rightarrow> bool" where
  "is_diag (Perror_diag f line label) = True"
| "is_diag (Alloc_diag n) = True"
| "is_diag x = False"

definition diagnostics :: "action list \<Rightarrow> action list" where
  "diagnostics acts = filter is_diag acts"

fun is_recvfrom :: "action \<Rightarrow> bool" where
  "is_recvfrom (Recvfrom fd n r) = True"
| "is_recvfrom x = False"

fun is_sendto :: "action \<Rightarrow> bool" where
  "is_sendto (Sendto fd p n region dest destlen r) = True"
| "is_sendto x = False"

subsection \<open>The two states\<close>

text \<open>
  Awaiting a datagram: readable interest is wanted, and whatever was received last has
  been sent back whole to its sender. Echoing a datagram: writable interest is wanted,
  the saved peer address is the sender of the datagram received last, that datagram sits
  at the start of the buffer, the bytes before the cursor are the ones sent back so far,
  and \<open>datasize\<close> bytes from the cursor up to the end of the datagram are still to send.
\<close>

definition awaiting_datagram :: "echo_log \<Rightarrow> locals \<Rightarrow> bool" where
  "awaiting_datagram lg s =
     (ev_events s = EPOLLIN OR EPOLLONESHOT \<and>
      (case lg of None \<Rightarrow> True
       | Some (B, a, sent) \<Rightarrow> echoed sent = B \<and> (\<forall>x\<in>set sent. fst x = a)))"

definition echoing_datagram :: "echo_log \<Rightarrow> locals \<Rightarrow> bool" where
  "echoing_datagram lg s =
     (ev_events s = EPOLLOUT OR EPOLLONESHOT \<and>
      (case lg of None \<Rightarrow> False
       | Some (B, a, sent) \<Rightarrow>
           insaddr s = a \<and> (\<forall>x\<in>set sent. fst x = a) \<and>
           length B \<le> MAX_BUFSIZE \<and> take (length B) (buf s) = B \<and>
           unat (bufptr s) + unat (datasize s) = length B \<and>
           echoed sent = take (unat (bufptr s)) B))"

definition echo_inv :: "echo_log \<Rightarrow> locals \<Rightarrow> bool" where
  "echo_inv lg s = (awaiting_datagram lg s \<or> echoing_datagram lg s)"

subsection \<open>What a pass and the start-up leave behind\<close>

text \<open>The calls the loop can make: none of them opens or closes a descriptor, or
  allocates or frees the buffer.\<close>

fun loop_call :: "action \<Rightarrow> bool" where
  "loop_call (Epoll_ctl ep op fd ev rc) = True"
| "loop_call (Epoll_wait ep r) = True"
| "loop_call (Recvfrom fd n r) = True"
| "loop_call (Sendto fd p n region dest destlen r) = True"
| "loop_call (Perror_diag f line label) = True"
| "loop_call x = False"

text \<open>What one pass does to the variables the exit path reads, and what it writes.\<close>

definition pass_ok :: "locals \<Rightarrow> action list \<times> flow \<Rightarrow> bool" where
  "pass_ok s r =
     ((\<forall>x\<in>set (fst r). loop_call x) \<and>
      (case snd r of
         Continue s' \<Rightarrow> epfd s' = epfd s \<and> sockfd s' = sockfd s \<and> diagnostics (fst r) = []
       | Goto_out s' \<Rightarrow> epfd s' = epfd s \<and> sockfd s' = sockfd s \<and> ret s' = EXIT_FAILURE \<and>
           (\<exists>line label. diagnostics (fst r) = [Perror_diag ''main'' line label])
       | Return c \<Rightarrow> False))"

text \<open>The descriptors the exit path will close.\<close>

definition held :: "locals \<Rightarrow> int set" where
  "held s = (if 0 \<le> epfd s then {epfd s} else {}) \<union> (if 0 \<le> sockfd s then {sockfd s} else {})"

definition setup_ok :: "setup_io \<Rightarrow> action list \<times> flow \<Rightarrow> bool" where
  "setup_ok e r =
     (case snd r of
        Continue s \<Rightarrow> open_fds (fst r) = held s \<and> buf_live (fst r) \<and> malloc_ok e \<and>
          diagnostics (fst r) = []
      | Goto_out s \<Rightarrow> open_fds (fst r) = held s \<and> buf_live (fst r) \<and> malloc_ok e \<and>
          ret s = EXIT_FAILURE \<and>
          (\<exists>line label. diagnostics (fst r) = [Perror_diag ''main'' line label])
      | Return c \<Rightarrow> open_fds (fst r) = {} \<and> \<not> buf_live (fst r) \<and> \<not> malloc_ok e \<and>
          c = EXIT_FAILURE \<and> diagnostics (fst r) = [Alloc_diag MAX_BUFSIZE])"

text \<open>A diagnostic that names the function and the source line.\<close>

fun names_location :: "action \<Rightarrow> bool" where
  "names_location (Perror_diag f line label) = True"
| "names_location x = False"

subsection \<open>Fatal failures\<close>

text \<open>
  A start-up call that fails, and a pass in which the wait fails with an errno other than
  \<open>EINTR\<close>, the receive or the send that the event calls for fails with an errno other than
  \<open>EINTR\<close> and \<open>EAGAIN\<close>, or the re-arming fails.
\<close>

definition setup_fails :: "setup_io \<Rightarrow> bool" where
  "setup_fails e =
     (\<not> malloc_ok e \<or> socket_rc e < 0 \<or> getfl_rc e = - 1 \<or> setfl_rc e = - 1 \<or>
      bind_rc e < 0 \<or> setsockopt_rc e \<noteq> 0 \<or> epoll_create1_rc e < 0 \<or> ctl_add_rc e \<noteq> 0)"

definition transient :: "int \<Rightarrow> bool" where
  "transient errno = (errno = EINTR \<or> errno = EAGAIN)"

definition fatal_pass :: "io \<Rightarrow> bool" where
  "fatal_pass i =
     (case wait i of
        WaitFail errno \<Rightarrow> errno \<noteq> EINTR
      | WaitReady r \<Rightarrow>
          (if r AND EPOLLIN \<noteq> 0
             then (case recv i of RecvFail errno \<Rightarrow> \<not> transient errno \<or> ctl_rc i \<noteq> 0
                   | RecvOk d from fromlen \<Rightarrow> ctl_rc i \<noteq> 0)
           else if r AND EPOLLOUT \<noteq> 0
             then (case send i of SendFail errno \<Rightarrow> \<not> transient errno \<or> ctl_rc i \<noteq> 0
                   | SendOk m \<Rightarrow> ctl_rc i \<noteq> 0)
           else ctl_rc i \<noteq> 0))"

fun goes_on :: "flow \<Rightarrow> bool" where
  "goes_on (Continue s) = True"
| "goes_on f = False"

subsection \<open>Which call failed, and what is written about it\<close>

text \<open>
  The first call of a run that fails fatally, read off the results the environment
  supplies; the source line of the check that catches it; and the name of the call.
  \<open>reports\<close> is what the diagnostic has to be: the message of line 108 for \<open>malloc\<close>, and
  otherwise the function name \<open>main\<close>, the line of the check and a label, which is the
  name of the call except at the three checks where the label is left open.
\<close>

datatype failing_op =
    F_malloc | F_socket | F_set_reuseport | F_bind | F_set_nonblock | F_epoll_create1
  | F_epoll_ctl_add | F_epoll_wait | F_recvfrom | F_sendto | F_epoll_ctl_mod

definition setup_failure :: "setup_io \<Rightarrow> failing_op option" where
  "setup_failure e =
     (if \<not> malloc_ok e then Some F_malloc
      else if socket_rc e < 0 then Some F_socket
      else if getfl_rc e = - 1 \<or> setfl_rc e = - 1 then Some F_set_reuseport
      else if bind_rc e < 0 then Some F_bind
      else if setsockopt_rc e \<noteq> 0 then Some F_set_nonblock
      else if epoll_create1_rc e < 0 then Some F_epoll_create1
      else if ctl_add_rc e \<noteq> 0 then Some F_epoll_ctl_add
      else None)"

definition rearm_failure :: "io \<Rightarrow> failing_op option" where
  "rearm_failure i = (if ctl_rc i \<noteq> 0 then Some F_epoll_ctl_mod else None)"

definition pass_failure :: "io \<Rightarrow> failing_op option" where
  "pass_failure i =
     (case wait i of
        WaitFail errno \<Rightarrow> if errno \<noteq> EINTR then Some F_epoll_wait else None
      | WaitReady r \<Rightarrow>
          (if r AND EPOLLIN \<noteq> 0
             then (case recv i of
                     RecvFail errno \<Rightarrow>
                       if transient errno then rearm_failure i else Some F_recvfrom
                   | RecvOk d from fromlen \<Rightarrow> rearm_failure i)
           else if r AND EPOLLOUT \<noteq> 0
             then (case send i of
                     SendFail errno \<Rightarrow>
                       if transient errno then rearm_failure i else Some F_sendto
                   | SendOk m \<Rightarrow> rearm_failure i)
           else rearm_failure i))"

fun loop_failure :: "io list \<Rightarrow> failing_op option" where
  "loop_failure [] = None"
| "loop_failure (i # ios) =
     (case pass_failure i of None \<Rightarrow> loop_failure ios | Some f \<Rightarrow> Some f)"

definition first_failure :: "setup_io \<Rightarrow> io list \<Rightarrow> failing_op option" where
  "first_failure e ios =
     (case setup_failure e of None \<Rightarrow> loop_failure ios | Some f \<Rightarrow> Some f)"

fun site_line :: "failing_op \<Rightarrow> nat" where
  "site_line F_malloc = 108"
| "site_line F_socket = 117"
| "site_line F_set_reuseport = 123"
| "site_line F_bind = 134"
| "site_line F_set_nonblock = 137"
| "site_line F_epoll_create1 = 143"
| "site_line F_epoll_ctl_add = 154"
| "site_line F_epoll_wait = 163"
| "site_line F_recvfrom = 183"
| "site_line F_sendto = 214"
| "site_line F_epoll_ctl_mod = 232"

fun op_name :: "failing_op \<Rightarrow> string" where
  "op_name F_malloc = ''malloc''"
| "op_name F_socket = ''socket''"
| "op_name F_set_reuseport = ''fcntl''"
| "op_name F_bind = ''bind''"
| "op_name F_set_nonblock = ''setsockopt''"
| "op_name F_epoll_create1 = ''epoll_create1''"
| "op_name F_epoll_ctl_add = ''epoll_ctl''"
| "op_name F_epoll_wait = ''epoll_wait''"
| "op_name F_recvfrom = ''recvfrom''"
| "op_name F_sendto = ''sendto''"
| "op_name F_epoll_ctl_mod = ''epoll_ctl''"

fun label_left_open :: "failing_op \<Rightarrow> bool" where
  "label_left_open F_socket = True"
| "label_left_open F_set_reuseport = True"
| "label_left_open F_set_nonblock = True"
| "label_left_open f = False"

definition reports :: "failing_op \<Rightarrow> action list \<Rightarrow> bool" where
  "reports f ds =
     (if f = F_malloc then ds = [Alloc_diag MAX_BUFSIZE]
      else \<exists>label. ds = [Perror_diag ''main'' (site_line f) label] \<and>
             (label_left_open f \<or> label = op_name f))"

definition pass_reports :: "failing_op option \<Rightarrow> action list \<times> flow \<Rightarrow> bool" where
  "pass_reports F r =
     (if goes_on (snd r) then F = None \<and> diagnostics (fst r) = []
      else case F of None \<Rightarrow> False | Some f \<Rightarrow> reports f (diagnostics (fst r)))"

subsection \<open>A datagram waiting to be sent back\<close>

text \<open>
  A received datagram is pending from its receipt until successful sends have taken all
  of it: for an empty datagram, until one send has succeeded. This is read off the trace
  alone, not off \<open>ev.events\<close>.
\<close>

definition echo_pending :: "echo_log \<Rightarrow> bool" where
  "echo_pending lg =
     (case lg of None \<Rightarrow> False
      | Some (B, a, sent) \<Rightarrow> \<not> (sent \<noteq> [] \<and> echoed sent = B))"

definition nonempty_recv :: "io \<Rightarrow> bool" where
  "nonempty_recv i = (case recv i of RecvFail errno \<Rightarrow> True | RecvOk d from fromlen \<Rightarrow> d \<noteq> [])"

definition nonempty_inv :: "echo_log \<Rightarrow> locals \<Rightarrow> bool" where
  "nonempty_inv lg s =
     ((case lg of None \<Rightarrow> True | Some (B, a, sent) \<Rightarrow> B \<noteq> []) \<and>
      (ev_events s = EPOLLOUT OR EPOLLONESHOT \<longrightarrow> datasize s \<noteq> 0))"

subsection \<open>Concrete values for the examples\<close>

definition ex_peer :: sockaddr where
  "ex_peer = [2, 0, 200, 21, 127, 0, 0, 1, 0, 0, 0, 0, 0, 0, 0, 0]"

definition ex_locals :: locals where
  "ex_locals =
     \<lparr>epfd = 4, ret = 0, sockfd = 3, insaddr = [], insaddrlen = 0,
      ev_events = EPOLLIN OR EPOLLONESHOT, events_events = 0,
      buf = replicate 1472 0, bufptr = 0, datasize = 0\<rparr>"

definition ex_setup :: setup_io where
  "ex_setup =
     \<lparr>malloc_ok = True, socket_rc = 3, getfl_rc = 2, setfl_rc = 0, bind_rc = 0,
      setsockopt_rc = 0, epoll_create1_rc = 4, ctl_add_rc = 0\<rparr>"

definition ex_io :: io where
  "ex_io = \<lparr>wait = WaitReady EPOLLIN, recv = RecvOk [1, 2, 3] ex_peer 16,
            send = SendOk 3, ctl_rc = 0\<rparr>"

definition ex_partial :: io where
  "ex_partial = \<lparr>wait = WaitReady EPOLLOUT, recv = RecvFail EAGAIN, send = SendOk 2, ctl_rc = 0\<rparr>"

definition ex_rest :: io where
  "ex_rest = \<lparr>wait = WaitReady EPOLLOUT, recv = RecvFail EAGAIN, send = SendOk 1, ctl_rc = 0\<rparr>"

definition ex_run :: "io list" where
  "ex_run = [ex_io, ex_partial, ex_rest]"

definition ex_final :: locals where
  "ex_final = ex_locals\<lparr>insaddr := ex_peer, insaddrlen := 16, events_events := EPOLLOUT,
                buf := [1, 2, 3] @ replicate 1469 0, bufptr := 3, datasize := 0\<rparr>"

definition ex_empty_recv :: io where
  "ex_empty_recv = \<lparr>wait = WaitReady EPOLLIN, recv = RecvOk [] ex_peer 16,
                    send = SendOk 0, ctl_rc = 0\<rparr>"

definition ex_send_eagain :: io where
  "ex_send_eagain = \<lparr>wait = WaitReady EPOLLOUT, recv = RecvFail EAGAIN,
                     send = SendFail EAGAIN, ctl_rc = 0\<rparr>"

definition ex_send_empty :: io where
  "ex_send_empty = \<lparr>wait = WaitReady EPOLLOUT, recv = RecvFail EAGAIN,
                    send = SendOk 0, ctl_rc = 0\<rparr>"

definition ex_no_memory :: setup_io where
  "ex_no_memory = ex_setup\<lparr>malloc_ok := False\<rparr>"

definition ex_bind_fails :: setup_io where
  "ex_bind_fails = ex_setup\<lparr>bind_rc := - 1\<rparr>"

definition ex_wait_fails :: io where
  "ex_wait_fails = ex_io\<lparr>wait := WaitFail 9\<rparr>"

definition ex_mid :: locals where
  "ex_mid = ex_locals\<lparr>insaddr := ex_peer, insaddrlen := 16, events_events := EPOLLOUT,
              buf := [1, 2, 3] @ replicate 1469 0, bufptr := 2, datasize := 1,
              ev_events := EPOLLOUT OR EPOLLONESHOT\<rparr>"

definition ex_pending :: locals where
  "ex_pending = ex_locals\<lparr>insaddr := ex_peer, insaddrlen := 16, events_events := EPOLLIN,
                  ev_events := EPOLLOUT OR EPOLLONESHOT\<rparr>"

section \<open>Auxiliary facts\<close>

subsection \<open>Event masks\<close>

lemmas epoll_consts = EPOLLIN_def EPOLLOUT_def EPOLLERR_def EPOLLHUP_def EPOLLONESHOT_def

lemma mask_disjoint:
  fixes r y m :: "32 word"
  assumes "r AND y = 0" and "y AND m = m"
  shows "r AND m = 0"
proof -
  have "r AND m = r AND (y AND m)" using assms(2) by simp
  also have "\<dots> = (r AND y) AND m" by (simp add: and.assoc)
  finally show ?thesis using assms(1) by simp
qed

lemma no_out_when_read:
  "r AND NOT ((EPOLLIN OR EPOLLONESHOT) OR EPOLLERR OR EPOLLHUP) = 0 \<Longrightarrow> r AND EPOLLOUT = 0"
  by (erule mask_disjoint) (simp add: epoll_consts)

lemma no_in_when_write:
  "r AND NOT ((EPOLLOUT OR EPOLLONESHOT) OR EPOLLERR OR EPOLLHUP) = 0 \<Longrightarrow> r AND EPOLLIN = 0"
  by (erule mask_disjoint) (simp add: epoll_consts)

lemma in_ne_out: "EPOLLIN OR EPOLLONESHOT \<noteq> EPOLLOUT OR EPOLLONESHOT"
  by (simp add: epoll_consts)

subsection \<open>Sizes and cursors\<close>

lemma unat_small: "n \<le> MAX_BUFSIZE \<Longrightarrow> unat (of_nat n :: 64 word) = n"
  by (simp add: MAX_BUFSIZE_def unat_of_nat)

lemma unat_advance:
  fixes p :: "64 word"
  assumes "unat p + m \<le> MAX_BUFSIZE"
  shows "unat (p + of_nat m) = unat p + m"
proof -
  have m: "unat (of_nat m :: 64 word) = m"
    using assms by (simp add: unat_small)
  have "unat p + unat (of_nat m :: 64 word) < 2 ^ LENGTH(64)"
    using assms m by (simp add: MAX_BUFSIZE_def)
  then have "unat (p + of_nat m) = unat p + unat (of_nat m :: 64 word)"
    by (simp only: unat_add_lem)
  then show ?thesis using m by simp
qed

lemma unat_consume:
  fixes d :: "64 word"
  assumes "m \<le> unat d"
  shows "unat (d - of_nat m) = unat d - m"
proof -
  have "unat d < 2 ^ LENGTH(64)" by (rule unsigned_less)
  then have m: "unat (of_nat m :: 64 word) = m"
    using assms by (simp add: unat_of_nat)
  then have "(of_nat m :: 64 word) \<le> d"
    using assms by (simp add: word_le_nat_alt)
  then have "unat (d - of_nat m) = unat d - unat (of_nat m :: 64 word)"
    by (rule unat_sub)
  then show ?thesis using m by simp
qed

lemma echoing_region:
  assumes "echoing_datagram (Some (B, a, sent)) s"
  shows "send_region s = drop (unat (bufptr s)) B"
proof -
  let ?p = "unat (bufptr s)" and ?d = "unat (datasize s)"
  from assms have len: "?p + ?d = length B" and tk: "take (length B) (buf s) = B"
    by (simp_all add: echoing_datagram_def)
  have "drop ?p B = drop ?p (take (?p + ?d) (buf s))" using len tk by simp
  also have "\<dots> = take ?d (drop ?p (buf s))" by (simp add: drop_take)
  finally show ?thesis by (simp add: send_region_def)
qed

subsection \<open>Descriptors, buffer and diagnostics\<close>

lemma fd_step_loop_call: "loop_call x \<Longrightarrow> fd_step F x = F"
  by (cases x) simp_all

lemma buf_step_loop_call: "loop_call x \<Longrightarrow> buf_step b x = b"
  by (cases x) simp_all

lemma foldl_fd_loop: "\<forall>x\<in>set acts. loop_call x \<Longrightarrow> foldl fd_step F acts = F"
  by (induction acts arbitrary: F) (simp_all add: fd_step_loop_call)

lemma foldl_buf_loop: "\<forall>x\<in>set acts. loop_call x \<Longrightarrow> foldl buf_step b acts = b"
  by (induction acts arbitrary: b) (simp_all add: buf_step_loop_call)

lemma rearm_pass: "pass_ok s (rearm s' rc) = (epfd s' = epfd s \<and> sockfd s' = sockfd s)"
  by (auto simp: pass_ok_def rearm_def fatal_def diagnostics_def Let_def)

lemma pass_ok_prefix:
  assumes "pass_ok s r" "loop_call a" "\<not> is_diag a"
  shows "pass_ok s (a # fst r, snd r)"
  using assms by (auto simp: pass_ok_def diagnostics_def split: flow.splits)

lemma on_readable_pass: "pass_ok s (on_readable s i)"
  by (auto simp: on_readable_def Let_def fatal_def pass_ok_def diagnostics_def rearm_def
      split: recv_res.splits)

lemma on_writable_pass: "pass_ok s (on_writable s i)"
  by (auto simp: on_writable_def Let_def fatal_def pass_ok_def diagnostics_def rearm_def
      next_after_send_def split: send_res.splits)

lemma pass_ok_events: "pass_ok (s\<lparr>events_events := r\<rparr>) x = pass_ok s x"
  by (simp add: pass_ok_def split: flow.splits)

lemma loop_body_pass: "pass_ok s (loop_body s i)"
proof (cases "wait i")
  case (WaitFail errno)
  then show ?thesis
    by (simp add: loop_body_def fatal_def pass_ok_def diagnostics_def Let_def)
next
  case (WaitReady r)
  let ?s = "s\<lparr>events_events := r\<rparr>"
  let ?r = "if r AND EPOLLIN \<noteq> 0 then on_readable ?s i
            else if r AND EPOLLOUT \<noteq> 0 then on_writable ?s i else rearm ?s (ctl_rc i)"
  have "pass_ok ?s ?r"
    by (simp add: on_readable_pass on_writable_pass rearm_pass)
  then have "pass_ok s ?r" by (simp add: pass_ok_events)
  then have "pass_ok s (Epoll_wait (epfd s) (wait i) # fst ?r, snd ?r)"
    by (rule pass_ok_prefix) simp_all
  then show ?thesis using WaitReady by (simp add: loop_body_def Let_def split: if_splits)
qed

lemma pass_ok_append:
  assumes "pass_ok s (a, Continue s')" "pass_ok s' r"
  shows "pass_ok s (a @ fst r, snd r)"
  using assms by (auto simp: pass_ok_def diagnostics_def split: flow.splits)

lemma event_loop_pass: "pass_ok s (event_loop s ios)"
proof (induction ios arbitrary: s)
  case Nil
  then show ?case by (simp add: pass_ok_def diagnostics_def)
next
  case (Cons i ios)
  have b: "pass_ok s (loop_body s i)" by (rule loop_body_pass)
  show ?case
  proof (cases "snd (loop_body s i)")
    case (Continue s')
    then have eq: "loop_body s i = (fst (loop_body s i), Continue s')"
      by (metis prod.collapse)
    with b have "pass_ok s (fst (loop_body s i), Continue s')" by simp
    from pass_ok_append [OF this Cons.IH [of s']]
    show ?thesis using eq by (simp add: case_prod_unfold Continue)
  next
    case (Goto_out s')
    then show ?thesis using b by (simp add: case_prod_unfold pass_ok_def)
  next
    case (Return c)
    then show ?thesis using b by (simp add: case_prod_unfold pass_ok_def)
  qed
qed

lemma main_setup_ok: "setup_ok e (main_setup e l0)"
  by (auto simp: setup_ok_def main_setup_def Let_def fatal_def set_reuseport_def
      set_nonblock_def open_fds_def buf_live_def diagnostics_def held_def)

lemma out_closes: "foldl fd_step (held s) (fst (main_out s)) = {}"
  by (auto simp: held_def main_out_def)

lemma out_frees: "\<not> foldl buf_step b (fst (main_out s))"
  by (simp add: main_out_def)

lemma out_silent: "diagnostics (fst (main_out s)) = []"
  by (simp add: main_out_def diagnostics_def)

text \<open>The whole run, when it has ended.\<close>

lemma main_ended:
  assumes "main e l0 ios = (acts, Some code)"
  shows "open_fds acts = {} \<and> \<not> buf_live acts \<and> code = EXIT_FAILURE \<and>
         (\<exists>d. diagnostics acts = [d] \<and>
            (if malloc_ok e then \<exists>line label. d = Perror_diag ''main'' line label
             else d = Alloc_diag MAX_BUFSIZE))"
proof (cases "snd (main_setup e l0)")
  case (Continue s0)
  then have ms: "main_setup e l0 = (fst (main_setup e l0), Continue s0)"
    by (metis prod.collapse)
  let ?t = "fst (main_setup e l0)" and ?a = "fst (event_loop s0 ios)"
  from main_setup_ok [of e l0] Continue
  have t: "open_fds ?t = held s0" "buf_live ?t" "malloc_ok e" "diagnostics ?t = []"
    by (simp_all add: setup_ok_def)
  have p: "pass_ok s0 (event_loop s0 ios)" by (rule event_loop_pass)
  then have calls: "\<forall>x\<in>set ?a. loop_call x" by (simp add: pass_ok_def)
  from assms ms have fin: "finish (?t @ ?a, snd (event_loop s0 ios)) = (acts, Some code)"
    by (metis (no_types, lifting) main_def old.prod.case flow.simps(10))
  show ?thesis
  proof (cases "snd (event_loop s0 ios)")
    case (Continue s')
    with fin show ?thesis by (simp add: finish_def)
  next
    case (Goto_out s')
    with p have s': "epfd s' = epfd s0" "sockfd s' = sockfd s0" "ret s' = EXIT_FAILURE"
      and d: "\<exists>line label. diagnostics ?a = [Perror_diag ''main'' line label]"
      by (simp_all add: pass_ok_def)
    from s' have h: "held s' = held s0" by (simp add: held_def)
    from fin Goto_out have acts: "acts = ?t @ ?a @ fst (main_out s')"
      and code: "code = ret s'"
      by (simp_all add: finish_def main_out_def)
    have "open_fds acts = foldl fd_step (foldl fd_step (open_fds ?t) ?a) (fst (main_out s'))"
      by (simp add: acts open_fds_def)
    also have "\<dots> = foldl fd_step (held s') (fst (main_out s'))"
      using calls t(1) h by (simp add: foldl_fd_loop)
    finally have 1: "open_fds acts = {}" by (simp add: out_closes)
    have 2: "\<not> buf_live acts"
      by (simp add: acts buf_live_def out_frees)
    have "diagnostics acts = diagnostics ?t @ diagnostics ?a @ diagnostics (fst (main_out s'))"
      by (simp add: acts diagnostics_def)
    with d t(4) have 3: "\<exists>line label. diagnostics acts = [Perror_diag ''main'' line label]"
      by (simp add: out_silent)
    from 1 2 3 code s'(3) t(3) show ?thesis by auto
  next
    case (Return c)
    with p show ?thesis by (simp add: pass_ok_def)
  qed
next
  case (Goto_out s)
  then have ms: "main_setup e l0 = (fst (main_setup e l0), Goto_out s)"
    by (metis prod.collapse)
  let ?t = "fst (main_setup e l0)"
  from main_setup_ok [of e l0] Goto_out
  have t: "open_fds ?t = held s" "buf_live ?t" "malloc_ok e" "ret s = EXIT_FAILURE"
    "\<exists>line label. diagnostics ?t = [Perror_diag ''main'' line label]"
    by (simp_all add: setup_ok_def)
  from assms ms have "finish (?t, Goto_out s) = (acts, Some code)"
    by (metis (no_types, lifting) main_def old.prod.case flow.simps(11))
  then have acts: "acts = ?t @ fst (main_out s)" and code: "code = ret s"
    by (simp_all add: finish_def main_out_def)
  have 1: "open_fds acts = {}"
    using t(1) by (simp add: acts open_fds_def out_closes)
  have 2: "\<not> buf_live acts"
    by (simp add: acts buf_live_def out_frees)
  have "diagnostics acts = diagnostics ?t @ diagnostics (fst (main_out s))"
    by (simp add: acts diagnostics_def)
  with t(5) have 3: "\<exists>line label. diagnostics acts = [Perror_diag ''main'' line label]"
    by (simp add: out_silent)
  from 1 2 3 code t(3,4) show ?thesis by auto
next
  case (Return c)
  then have ms: "main_setup e l0 = (fst (main_setup e l0), Return c)"
    by (metis prod.collapse)
  let ?t = "fst (main_setup e l0)"
  from main_setup_ok [of e l0] Return
  have t: "open_fds ?t = {}" "\<not> buf_live ?t" "\<not> malloc_ok e" "c = EXIT_FAILURE"
    "diagnostics ?t = [Alloc_diag MAX_BUFSIZE]"
    by (simp_all add: setup_ok_def)
  from assms ms have "finish (?t, Return c) = (acts, Some code)"
    by (metis (no_types, lifting) main_def old.prod.case flow.simps(12))
  then have "acts = ?t" "code = c" by (simp_all add: finish_def)
  with t show ?thesis by simp
qed

subsection \<open>The invariant of the loop\<close>

lemma echo_log_append: "echo_log_from lg (a @ b) = echo_log_from (echo_log_from lg a) b"
  by (simp add: echo_log_from_def)

lemma interest_append: "interest_from w (a @ b) = interest_from (interest_from w a) b"
  by (simp add: interest_from_def)

lemma awaiting_events [simp]:
  "awaiting_datagram lg (s\<lparr>events_events := r\<rparr>) = awaiting_datagram lg s"
  by (simp add: awaiting_datagram_def)

lemma echoing_events [simp]:
  "echoing_datagram lg (s\<lparr>events_events := r\<rparr>) = echoing_datagram lg s"
  by (simp add: echoing_datagram_def split: option.splits)

text \<open>The shape of a pass that goes on.\<close>

lemma on_readable_Continue:
  assumes "snd (on_readable s i) = Continue s'"
  shows "(\<exists>errno. recv i = RecvFail errno \<and>
            s' = s\<lparr>insaddrlen := SIZEOF_SOCKADDR, ev_events := EPOLLIN OR EPOLLONESHOT\<rparr> \<and>
            echo_log_from lg (fst (on_readable s i)) = lg) \<or>
         (\<exists>d from fromlen. recv i = RecvOk d from fromlen \<and>
            s' = s\<lparr>insaddrlen := fromlen, buf := d @ drop (length d) (buf s), insaddr := from,
                   datasize := of_nat (length d), bufptr := 0,
                   ev_events := EPOLLOUT OR EPOLLONESHOT\<rparr> \<and>
            echo_log_from lg (fst (on_readable s i)) = Some (d, from, []))"
  using assms
  by (auto simp: on_readable_def Let_def rearm_def fatal_def echo_log_from_def
      split: recv_res.splits if_splits)

lemma on_writable_Continue:
  assumes "snd (on_writable s i) = Continue s'"
  shows "(\<exists>errno. send i = SendFail errno \<and> s' = next_after_send s \<and>
            echo_log_from lg (fst (on_writable s i)) = lg) \<or>
         (\<exists>m. send i = SendOk m \<and>
            s' = next_after_send
                   (s\<lparr>datasize := datasize s - of_nat m, bufptr := bufptr s + of_nat m\<rparr>) \<and>
            echo_log_from lg (fst (on_writable s i)) =
              log_step lg (Sendto (sockfd s) (bufptr s) (datasize s) (send_region s)
                             (insaddr s) (insaddrlen s) (SendOk m)))"
  using assms
  by (auto simp: on_writable_def Let_def rearm_def fatal_def echo_log_from_def
      split: send_res.splits if_splits)

lemma readable_step:
  assumes aw: "awaiting_datagram lg s"
    and len: "\<And>d from fromlen. recv i = RecvOk d from fromlen \<Longrightarrow> length d \<le> MAX_BUFSIZE"
    and go: "snd (on_readable s i) = Continue s'"
  shows "echo_inv (echo_log_from lg (fst (on_readable s i))) s'"
  using on_readable_Continue [OF go, of lg]
proof (elim disjE exE conjE)
  fix errno
  assume "s' = s\<lparr>insaddrlen := SIZEOF_SOCKADDR, ev_events := EPOLLIN OR EPOLLONESHOT\<rparr>"
    and "echo_log_from lg (fst (on_readable s i)) = lg"
  with aw show ?thesis
    by (simp add: echo_inv_def awaiting_datagram_def)
next
  fix d "from" fromlen
  assume r: "recv i = RecvOk d from fromlen"
    and s': "s' = s\<lparr>insaddrlen := fromlen, buf := d @ drop (length d) (buf s), insaddr := from,
                   datasize := of_nat (length d), bufptr := 0,
                   ev_events := EPOLLOUT OR EPOLLONESHOT\<rparr>"
    and lg: "echo_log_from lg (fst (on_readable s i)) = Some (d, from, [])"
  from len [OF r] have "unat (of_nat (length d) :: 64 word) = length d"
    by (rule unat_small)
  with len [OF r] have "echoing_datagram (Some (d, from, [])) s'"
    by (simp add: echoing_datagram_def s' echoed_def)
  with lg show ?thesis by (simp add: echo_inv_def)
qed

lemma echoing_cases:
  assumes "echoing_datagram lg s"
  obtains B a sent where "lg = Some (B, a, sent)"
    and "ev_events s = EPOLLOUT OR EPOLLONESHOT"
    and "insaddr s = a" and "\<forall>x\<in>set sent. fst x = a"
    and "length B \<le> MAX_BUFSIZE" and "take (length B) (buf s) = B"
    and "unat (bufptr s) + unat (datasize s) = length B"
    and "echoed sent = take (unat (bufptr s)) B"
  using assms by (auto simp: echoing_datagram_def split: option.splits)

lemma writable_step:
  assumes ec: "echoing_datagram lg s"
    and le: "\<And>m. send i = SendOk m \<Longrightarrow> m \<le> unat (datasize s)"
    and go: "snd (on_writable s i) = Continue s'"
  shows "echo_inv (echo_log_from lg (fst (on_writable s i))) s'"
proof -
  from ec obtain B a sent where lg: "lg = Some (B, a, sent)"
    and ev: "ev_events s = EPOLLOUT OR EPOLLONESHOT"
    and peer: "insaddr s = a" and dests: "\<forall>x\<in>set sent. fst x = a"
    and lenB: "length B \<le> MAX_BUFSIZE" and tk: "take (length B) (buf s) = B"
    and sum: "unat (bufptr s) + unat (datasize s) = length B"
    and sofar: "echoed sent = take (unat (bufptr s)) B"
    by (rule echoing_cases)
  from on_writable_Continue [OF go, of lg] show ?thesis
  proof (elim disjE exE conjE)
    fix errno
    assume s': "s' = next_after_send s"
      and l': "echo_log_from lg (fst (on_writable s i)) = lg"
    show ?thesis
    proof (cases "datasize s = 0")
      case True
      with sum have "unat (bufptr s) = length B" by simp
      with sofar have "echoed sent = B" by simp
      with dests True show ?thesis
        by (simp add: echo_inv_def awaiting_datagram_def l' [unfolded lg] lg s' next_after_send_def)
    next
      case False
      with ec show ?thesis
        by (simp add: echo_inv_def echoing_datagram_def l' [unfolded lg] lg s' next_after_send_def)
    qed
  next
    fix m
    assume sd: "send i = SendOk m"
      and s': "s' = next_after_send
                   (s\<lparr>datasize := datasize s - of_nat m, bufptr := bufptr s + of_nat m\<rparr>)"
      and l': "echo_log_from lg (fst (on_writable s i)) =
              log_step lg (Sendto (sockfd s) (bufptr s) (datasize s) (send_region s)
                             (insaddr s) (insaddrlen s) (SendOk m))"
    let ?p = "unat (bufptr s)" and ?d = "unat (datasize s)"
    from le [OF sd] have m: "m \<le> ?d" .
    have d': "unat (datasize s - of_nat m) = ?d - m"
      using m by (rule unat_consume)
    have "?p + m \<le> MAX_BUFSIZE" using m sum lenB by simp
    then have p': "unat (bufptr s + of_nat m) = ?p + m"
      by (rule unat_advance)
    have region: "send_region s = drop ?p B"
      using ec unfolding lg by (rule echoing_region)
    let ?sent = "sent @ [(insaddr s, take m (send_region s))]"
    have l'': "echo_log_from lg (fst (on_writable s i)) = Some (B, a, ?sent)"
      using l' by (simp add: lg)
    have "echoed ?sent = take ?p B @ take m (drop ?p B)"
      using sofar by (simp add: echoed_def region)
    also have "\<dots> = take (?p + m) B" by (simp add: take_add)
    finally have sofar': "echoed ?sent = take (?p + m) B" .
    have dests': "\<forall>x\<in>set ?sent. fst x = a" using dests peer by simp
    have sum': "(?p + m) + (?d - m) = length B" using sum m by simp
    show ?thesis
    proof (cases "datasize s - of_nat m = 0")
      case True
      with d' have "?d - m = 0" by simp
      with sum' have "?p + m = length B" by simp
      with sofar' have "echoed ?sent = B" by simp
      with dests' True show ?thesis
        by (simp add: echo_inv_def awaiting_datagram_def l'' s' next_after_send_def)
    next
      case False
      from sofar' dests' sum' lenB tk peer False show ?thesis
        by (simp add: echo_inv_def echoing_datagram_def l'' s' next_after_send_def d' p')
    qed
  qed
qed

lemma log_epoll_wait [simp]: "echo_log_from lg (Epoll_wait ep r # a) = echo_log_from lg a"
  by (simp add: echo_log_from_def)

lemma rearm_step:
  assumes "snd (rearm s rc) = Continue s'"
  shows "s' = s \<and> echo_log_from lg (fst (rearm s rc)) = lg"
  using assms by (auto simp: rearm_def fatal_def Let_def echo_log_from_def split: if_splits)

lemma awaiting_no_out:
  assumes "awaiting_datagram lg s" and "r AND NOT (ev_events s OR EPOLLERR OR EPOLLHUP) = 0"
  shows "r AND EPOLLOUT = 0"
  using assms by (simp add: awaiting_datagram_def no_out_when_read)

lemma echoing_no_in:
  assumes "echoing_datagram lg s" and "r AND NOT (ev_events s OR EPOLLERR OR EPOLLHUP) = 0"
  shows "r AND EPOLLIN = 0"
  using assms by (simp add: echoing_datagram_def no_in_when_write)

lemma loop_body_step:
  assumes inv: "echo_inv lg s" and env: "env_ok s i"
    and go: "snd (loop_body s i) = Continue s'"
  shows "echo_inv (echo_log_from lg (fst (loop_body s i))) s'"
proof (cases "wait i")
  case (WaitFail errno)
  with go inv show ?thesis
    by (simp add: loop_body_def Let_def fatal_def echo_log_from_def split: if_splits)
next
  case (WaitReady r)
  let ?s = "s\<lparr>events_events := r\<rparr>"
  from env WaitReady have mask: "r AND NOT (ev_events s OR EPOLLERR OR EPOLLHUP) = 0"
    by (simp add: env_ok_def)
  show ?thesis
  proof (cases "r AND EPOLLIN \<noteq> 0")
    case True
    then have body: "loop_body s i =
        (Epoll_wait (epfd s) (wait i) # fst (on_readable ?s i), snd (on_readable ?s i))"
      using WaitReady by (simp add: loop_body_def Let_def)
    from True mask inv have aw: "awaiting_datagram lg ?s"
      using echoing_no_in [of lg s r] by (auto simp: echo_inv_def)
    from env WaitReady True
    have len: "\<And>d from fromlen. recv i = RecvOk d from fromlen \<Longrightarrow> length d \<le> MAX_BUFSIZE"
      by (simp add: env_ok_def)
    from go body have "snd (on_readable ?s i) = Continue s'" by simp
    from readable_step [OF aw len this] show ?thesis by (simp add: body)
  next
    case noin: False
    show ?thesis
    proof (cases "r AND EPOLLOUT \<noteq> 0")
      case True
      with noin have body: "loop_body s i =
          (Epoll_wait (epfd s) (wait i) # fst (on_writable ?s i), snd (on_writable ?s i))"
        using WaitReady by (simp add: loop_body_def Let_def)
      from True mask inv have ec: "echoing_datagram lg ?s"
        using awaiting_no_out [of lg s r] by (auto simp: echo_inv_def)
      from env WaitReady True noin
      have le: "\<And>m. send i = SendOk m \<Longrightarrow> m \<le> unat (datasize ?s)"
        by (simp add: env_ok_def)
      from go body have "snd (on_writable ?s i) = Continue s'" by simp
      from writable_step [OF ec le this] show ?thesis by (simp add: body)
    next
      case False
      with noin have body: "loop_body s i =
          (Epoll_wait (epfd s) (wait i) # fst (rearm ?s (ctl_rc i)), snd (rearm ?s (ctl_rc i)))"
        using WaitReady by (simp add: loop_body_def Let_def)
      from go body have "snd (rearm ?s (ctl_rc i)) = Continue s'" by simp
      from rearm_step [OF this, of lg] inv show ?thesis
        by (auto simp: body echo_inv_def)
    qed
  qed
qed

lemma event_loop_inv:
  assumes "echo_inv lg s" and "env_ok_run s ios" and "snd (event_loop s ios) = Continue s'"
  shows "echo_inv (echo_log_from lg (fst (event_loop s ios))) s'"
  using assms
proof (induction ios arbitrary: s lg)
  case Nil
  then show ?case by (simp add: echo_log_from_def)
next
  case (Cons i ios)
  show ?case
  proof (cases "snd (loop_body s i)")
    case (Continue s1)
    then have eq: "loop_body s i = (fst (loop_body s i), Continue s1)"
      by (metis prod.collapse)
    from Cons.prems(2) Continue have env: "env_ok s i" and run: "env_ok_run s1 ios"
      by simp_all
    have loop: "event_loop s (i # ios) =
        (fst (loop_body s i) @ fst (event_loop s1 ios), snd (event_loop s1 ios))"
      by (subst event_loop.simps, subst eq) simp
    from loop_body_step [OF Cons.prems(1) env Continue]
    have "echo_inv (echo_log_from lg (fst (loop_body s i))) s1" .
    from Cons.IH [OF this run] Cons.prems(3) loop
    show ?thesis by (simp add: echo_log_append)
  next
    case (Goto_out s1)
    with Cons.prems(3) show ?thesis by (simp add: case_prod_unfold)
  next
    case (Return c)
    with Cons.prems(3) show ?thesis by (simp add: case_prod_unfold)
  qed
qed

lemma setup_inv:
  assumes "main_setup e l0 = (t, Continue s0)"
  shows "echo_log_from None t = None \<and> ev_events s0 = EPOLLIN OR EPOLLONESHOT \<and>
         interest_from None t = Some (EPOLLIN OR EPOLLONESHOT)"
  using assms
  by (auto simp: main_setup_def Let_def fatal_def set_reuseport_def set_nonblock_def
      echo_log_from_def interest_from_def split: if_splits)

subsection \<open>The calls of one pass\<close>

lemma rearm_trace:
  assumes "snd (rearm s rc) = Continue s'"
  shows "s' = s \<and> fst (rearm s rc) = [Epoll_ctl (epfd s) EPOLL_CTL_MOD (sockfd s) (ev_events s) 0]"
  using assms by (auto simp: rearm_def fatal_def Let_def split: if_splits)

lemma on_readable_trace:
  assumes "snd (on_readable s i) = Continue s'"
  shows "fst (on_readable s i) =
           [Recvfrom (sockfd s) MAX_BUFSIZE (recv i),
            Epoll_ctl (epfd s) EPOLL_CTL_MOD (sockfd s) (ev_events s') 0]"
  using assms
  by (auto simp: on_readable_def rearm_def fatal_def Let_def split: recv_res.splits if_splits)

lemma on_writable_trace:
  assumes "snd (on_writable s i) = Continue s'"
  shows "fst (on_writable s i) =
           [Sendto (sockfd s) (bufptr s) (datasize s) (send_region s) (insaddr s)
              (insaddrlen s) (send i),
            Epoll_ctl (epfd s) EPOLL_CTL_MOD (sockfd s) (ev_events s') 0]"
  using assms
  by (auto simp: on_writable_def rearm_def fatal_def Let_def next_after_send_def
      split: send_res.splits if_splits)

lemma loop_body_ready:
  assumes "wait i = WaitReady r"
  shows "loop_body s i =
     (if r AND EPOLLIN \<noteq> 0
        then (Epoll_wait (epfd s) (WaitReady r) # fst (on_readable (s\<lparr>events_events := r\<rparr>) i),
              snd (on_readable (s\<lparr>events_events := r\<rparr>) i))
      else if r AND EPOLLOUT \<noteq> 0
        then (Epoll_wait (epfd s) (WaitReady r) # fst (on_writable (s\<lparr>events_events := r\<rparr>) i),
              snd (on_writable (s\<lparr>events_events := r\<rparr>) i))
      else (Epoll_wait (epfd s) (WaitReady r) #
              fst (rearm (s\<lparr>events_events := r\<rparr>) (ctl_rc i)),
            snd (rearm (s\<lparr>events_events := r\<rparr>) (ctl_rc i))))"
  using assms by (simp add: loop_body_def Let_def)

lemma loop_body_trace:
  assumes go: "snd (loop_body s i) = Continue s'" and w: "wait i = WaitReady r"
  shows "\<exists>io. fst (loop_body s i) =
           Epoll_wait (epfd s) (WaitReady r) # io @
             [Epoll_ctl (epfd s) EPOLL_CTL_MOD (sockfd s) (ev_events s') 0] \<and>
           (\<forall>x\<in>set io. (is_recvfrom x \<and> r AND EPOLLIN \<noteq> 0) \<or>
                          (is_sendto x \<and> r AND EPOLLIN = 0))"
proof -
  let ?s = "s\<lparr>events_events := r\<rparr>"
  note body = loop_body_ready [OF w, of s]
  consider (rd) "r AND EPOLLIN \<noteq> 0"
    | (wr) "r AND EPOLLIN = 0" "r AND EPOLLOUT \<noteq> 0"
    | (no) "r AND EPOLLIN = 0" "r AND EPOLLOUT = 0"
    by blast
  then show ?thesis
  proof cases
    case rd
    with go body have "snd (on_readable ?s i) = Continue s'" by simp
    from on_readable_trace [OF this] rd body show ?thesis by simp
  next
    case wr
    with go body have "snd (on_writable ?s i) = Continue s'" by simp
    from on_writable_trace [OF this] wr body show ?thesis by simp
  next
    case no
    with go body have "snd (rearm ?s (ctl_rc i)) = Continue s'" by simp
    from rearm_trace [OF this] no body show ?thesis by simp
  qed
qed

lemma loop_body_interrupted:
  assumes "snd (loop_body s i) = Continue s'" and "wait i = WaitFail errno"
  shows "s' = s \<and> fst (loop_body s i) = [Epoll_wait (epfd s) (WaitFail errno)]"
  using assms by (auto simp: loop_body_def fatal_def Let_def split: if_splits)

lemma interest_ready:
  "interest_from w (Epoll_wait ep r # io @ [Epoll_ctl ep' op fd ev 0]) = Some ev"
  by (simp add: interest_from_def)

lemma loop_body_interest:
  assumes go: "snd (loop_body s i) = Continue s'"
  shows "interest_from (Some (ev_events s)) (fst (loop_body s i)) = Some (ev_events s')"
proof (cases "wait i")
  case (WaitFail errno)
  from loop_body_interrupted [OF go this] show ?thesis
    by (simp add: interest_from_def)
next
  case (WaitReady r)
  from loop_body_trace [OF go this] show ?thesis
    by (auto simp: interest_ready)
qed

lemma loop_body_last:
  assumes "snd (loop_body s i) = Continue s'" and "wait i = WaitReady r"
  shows "last (fst (loop_body s i)) =
           Epoll_ctl (epfd s) EPOLL_CTL_MOD (sockfd s) (ev_events s') 0"
  using loop_body_trace [OF assms] by auto

lemma event_loop_Cons:
  assumes "snd (loop_body s i) = Continue s1"
  shows "event_loop s (i # ios) =
           (fst (loop_body s i) @ fst (event_loop s1 ios), snd (event_loop s1 ios))"
  using assms by (simp add: case_prod_unfold)

lemma event_loop_stops:
  assumes "snd (event_loop s (i # ios)) = Continue s'"
  obtains s1 where "snd (loop_body s i) = Continue s1"
  using assms by (cases "snd (loop_body s i)") (simp_all add: case_prod_unfold)

lemma event_loop_interest:
  assumes "snd (event_loop s ios) = Continue s'"
  shows "interest_from (Some (ev_events s)) (fst (event_loop s ios)) = Some (ev_events s')"
  using assms
proof (induction ios arbitrary: s)
  case Nil
  then show ?case by (simp add: interest_from_def)
next
  case (Cons i ios)
  from Cons.prems obtain s1 where s1: "snd (loop_body s i) = Continue s1"
    by (rule event_loop_stops)
  note loop = event_loop_Cons [OF s1, of ios]
  from Cons.prems loop have "snd (event_loop s1 ios) = Continue s'" by simp
  from Cons.IH [OF this] loop_body_interest [OF s1] loop
  show ?case by (simp add: interest_append)
qed

text \<open>The state between two passes of any run the kernel can produce.\<close>

lemma reachable_inv:
  assumes su: "snd (main_setup e l0) = Continue s0"
    and env: "env_ok_run s0 ios"
    and go: "snd (event_loop s0 ios) = Continue s"
  shows "echo_inv (echo_log_from None (fst (main_setup e l0) @ fst (event_loop s0 ios))) s"
    and "interest_from None (fst (main_setup e l0) @ fst (event_loop s0 ios)) = Some (ev_events s)"
proof -
  from su have ms: "main_setup e l0 = (fst (main_setup e l0), Continue s0)"
    by (metis prod.collapse)
  from setup_inv [OF ms]
  have l0: "echo_log_from None (fst (main_setup e l0)) = None"
    and ev0: "ev_events s0 = EPOLLIN OR EPOLLONESHOT"
    and i0: "interest_from None (fst (main_setup e l0)) = Some (EPOLLIN OR EPOLLONESHOT)"
    by simp_all
  from ev0 have "echo_inv None s0"
    by (simp add: echo_inv_def awaiting_datagram_def)
  from event_loop_inv [OF this env go]
  show "echo_inv (echo_log_from None (fst (main_setup e l0) @ fst (event_loop s0 ios))) s"
    by (simp add: echo_log_append l0)
  from event_loop_interest [OF go] ev0 i0
  show "interest_from None (fst (main_setup e l0) @ fst (event_loop s0 ios)) = Some (ev_events s)"
    by (simp add: interest_append)
qed

lemma states_exclusive: "\<not> (awaiting_datagram lg s \<and> echoing_datagram lg s)"
  using in_ne_out by (auto simp: awaiting_datagram_def echoing_datagram_def)

subsection \<open>The examples, evaluated\<close>

lemmas body_defs = loop_body_def on_readable_def on_writable_def rearm_def fatal_def
  next_after_send_def send_region_def Let_def

lemmas ex_defs = ex_locals_def ex_io_def ex_partial_def ex_rest_def ex_run_def ex_final_def
  ex_setup_def

lemma ex_setup_runs: "snd (main_setup ex_setup ex_locals) = Continue ex_locals"
  by (simp add: main_setup_def set_reuseport_def set_nonblock_def fatal_def Let_def ex_defs
      EXIT_SUCCESS_def)

lemma ex_run_state: "snd (event_loop ex_locals ex_run) = Continue ex_final"
  by (simp add: body_defs ex_defs epoll_consts SIZEOF_SOCKADDR_def)

lemma ex_run_env: "env_ok_run ex_locals ex_run"
  by (simp add: env_ok_def body_defs ex_defs epoll_consts SIZEOF_SOCKADDR_def MAX_BUFSIZE_def)

lemma ex_run_log:
  "echo_log_from None (fst (main_setup ex_setup ex_locals) @ fst (event_loop ex_locals ex_run)) =
     Some ([1, 2, 3], ex_peer, [(ex_peer, [1, 2]), (ex_peer, [3])])"
  by (simp add: main_setup_def set_reuseport_def set_nonblock_def echo_log_from_def
      body_defs ex_defs epoll_consts SIZEOF_SOCKADDR_def)

subsection \<open>More on single passes and on the examples\<close>

lemma or_and_self: "(x OR m) AND m = (m::int)"
  by (auto simp: bit_eq_iff bit_and_iff bit_or_iff)

lemma nonblock_bit: "(flags OR O_NONBLOCK) AND O_NONBLOCK \<noteq> 0"
  by (simp add: or_and_self) (simp add: O_NONBLOCK_def)

lemma ex_prefix_state: "snd (event_loop ex_locals [ex_io, ex_partial]) = Continue ex_mid"
  by (simp add: body_defs ex_defs ex_mid_def epoll_consts SIZEOF_SOCKADDR_def)

lemma ex_prefix_env: "env_ok_run ex_locals [ex_io, ex_partial]"
  by (simp add: env_ok_def body_defs ex_defs epoll_consts SIZEOF_SOCKADDR_def MAX_BUFSIZE_def)

lemma ex_mid_env: "env_ok ex_mid ex_rest"
  by (simp add: env_ok_def ex_defs ex_mid_def epoll_consts)

lemma no_recv_rearm: "\<forall>x\<in>set (fst (rearm s rc)). \<not> is_recvfrom x"
  by (simp add: rearm_def fatal_def Let_def)

lemma no_recv_writable: "\<forall>x\<in>set (fst (on_writable s i)). \<not> is_recvfrom x"
  using no_recv_rearm
  by (simp add: on_writable_def fatal_def Let_def split: send_res.splits)

lemma recv_needs_in:
  assumes "\<exists>x\<in>set (fst (loop_body s i)). is_recvfrom x"
  obtains r where "wait i = WaitReady r" and "r AND EPOLLIN \<noteq> 0"
proof (cases "wait i")
  case (WaitFail errno)
  with assms show ?thesis
    by (simp add: loop_body_def fatal_def Let_def split: if_splits)
next
  case (WaitReady r)
  show ?thesis
  proof (cases "r AND EPOLLIN = 0")
    case True
    with assms loop_body_ready [OF WaitReady, of s] no_recv_writable no_recv_rearm
    show ?thesis by (simp split: if_splits)
  next
    case False
    with WaitReady that show ?thesis by blast
  qed
qed

lemma next_after_send_ev:
  "ev_events (next_after_send x) =
     (if datasize x = 0 then EPOLLIN OR EPOLLONESHOT else EPOLLOUT OR EPOLLONESHOT)"
  "datasize (next_after_send x) = datasize x"
  by (simp_all add: next_after_send_def)

lemma ex_setup_trace:
  "fst (main_setup ex_setup ex_locals) =
     [Malloc MAX_BUFSIZE True, Socket 3, Fcntl_getfl 3 2, Fcntl_setfl 3 (2 OR O_NONBLOCK) 0,
      Bind 3 5123 ''127.0.0.1'' 0, Setsockopt 3 SOL_SOCKET SO_REUSEPORT 1 0, Epoll_create1 4,
      Epoll_ctl 4 EPOLL_CTL_ADD 3 (EPOLLIN OR EPOLLONESHOT) 0]"
  by (simp add: main_setup_def set_reuseport_def set_nonblock_def fatal_def Let_def ex_defs)

lemma ex_bind_fails_run:
  "main ex_bind_fails ex_locals [] =
     ([Malloc MAX_BUFSIZE True, Socket 3, Fcntl_getfl 3 2, Fcntl_setfl 3 (2 OR O_NONBLOCK) 0,
       Bind 3 5123 ''127.0.0.1'' (- 1), Perror_diag ''main'' 134 ''bind'', Close 3, Free],
      Some EXIT_FAILURE)"
  by (simp add: main_def main_setup_def finish_def main_out_def set_reuseport_def fatal_def
      Let_def ex_bind_fails_def ex_setup_def ex_locals_def)

lemma ex_wait_fails_run:
  "main ex_setup ex_locals [ex_wait_fails] =
     ([Malloc MAX_BUFSIZE True, Socket 3, Fcntl_getfl 3 2, Fcntl_setfl 3 (2 OR O_NONBLOCK) 0,
       Bind 3 5123 ''127.0.0.1'' 0, Setsockopt 3 SOL_SOCKET SO_REUSEPORT 1 0, Epoll_create1 4,
       Epoll_ctl 4 EPOLL_CTL_ADD 3 (EPOLLIN OR EPOLLONESHOT) 0,
       Epoll_wait 4 (WaitFail 9), Perror_diag ''main'' 163 ''epoll_wait'', Close 4, Close 3, Free],
      Some EXIT_FAILURE)"
  by (simp add: main_def main_setup_def finish_def main_out_def set_reuseport_def
      set_nonblock_def fatal_def loop_body_def Let_def ex_wait_fails_def ex_io_def
      ex_setup_def ex_locals_def EINTR_def)

lemma transient_failure_frame:
  assumes w: "wait i = WaitReady r" and go: "snd (loop_body s i) = Continue s'"
    and tr: "(r AND EPOLLIN \<noteq> 0 \<and> (\<exists>errno. recv i = RecvFail errno)) \<or>
             (r AND EPOLLIN = 0 \<and> r AND EPOLLOUT \<noteq> 0 \<and> (\<exists>errno. send i = SendFail errno))"
  shows "datasize s' = datasize s \<and> bufptr s' = bufptr s \<and> buf s' = buf s \<and>
         insaddr s' = insaddr s \<and>
         insaddrlen s' = (if r AND EPOLLIN \<noteq> 0 then SIZEOF_SOCKADDR else insaddrlen s)"
proof -
  let ?s = "s\<lparr>events_events := r\<rparr>"
  note body = loop_body_ready [OF w, of s]
  from tr show ?thesis
  proof (elim disjE conjE exE)
    fix errno
    assume rd: "r AND EPOLLIN \<noteq> 0" and f: "recv i = RecvFail errno"
    from go rd body have "snd (on_readable ?s i) = Continue s'" by simp
    from on_readable_Continue [OF this, of None] f rd show ?thesis by auto
  next
    fix errno
    assume wr: "r AND EPOLLIN = 0" "r AND EPOLLOUT \<noteq> 0" and f: "send i = SendFail errno"
    from go wr body have "snd (on_writable ?s i) = Continue s'" by simp
    from on_writable_Continue [OF this, of None] f wr show ?thesis
      by (auto simp: next_after_send_def)
  qed
qed

subsection \<open>When the program exits\<close>

lemma rearm_goes_on: "goes_on (snd (rearm s rc)) = (rc = 0)"
  by (simp add: rearm_def fatal_def Let_def)

lemma on_readable_goes_on:
  "goes_on (snd (on_readable s i)) =
     (case recv i of RecvFail errno \<Rightarrow> transient errno \<and> ctl_rc i = 0
      | RecvOk d from fromlen \<Rightarrow> ctl_rc i = 0)"
  by (simp add: on_readable_def Let_def fatal_def transient_def rearm_goes_on
      split: recv_res.splits)

lemma on_writable_goes_on:
  "goes_on (snd (on_writable s i)) =
     (case send i of SendFail errno \<Rightarrow> transient errno \<and> ctl_rc i = 0
      | SendOk m \<Rightarrow> ctl_rc i = 0)"
  by (simp add: on_writable_def Let_def fatal_def transient_def rearm_goes_on
      split: send_res.splits)

lemma loop_body_goes_on: "goes_on (snd (loop_body s i)) = (\<not> fatal_pass i)"
proof (cases "wait i")
  case (WaitFail errno)
  then show ?thesis
    by (simp add: loop_body_def fatal_pass_def fatal_def Let_def)
next
  case (WaitReady r)
  from loop_body_ready [OF this, of s] WaitReady show ?thesis
    by (simp add: fatal_pass_def on_readable_goes_on on_writable_goes_on rearm_goes_on
        split: recv_res.splits send_res.splits)
qed

lemma event_loop_goes_on: "goes_on (snd (event_loop s ios)) = (\<not> list_ex fatal_pass ios)"
proof (induction ios arbitrary: s)
  case Nil
  then show ?case by simp
next
  case (Cons i ios)
  show ?case
  proof (cases "snd (loop_body s i)")
    case (Continue s1)
    with loop_body_goes_on [of s i] have "\<not> fatal_pass i" by simp
    with Cons.IH [of s1] event_loop_Cons [OF Continue, of ios] show ?thesis by simp
  next
    case (Goto_out s1)
    with loop_body_goes_on [of s i] have "fatal_pass i" by simp
    with Goto_out show ?thesis by (simp add: case_prod_unfold)
  next
    case (Return c)
    with loop_body_goes_on [of s i] have "fatal_pass i" by simp
    with Return show ?thesis by (simp add: case_prod_unfold)
  qed
qed

lemma main_setup_goes_on: "goes_on (snd (main_setup e l0)) = (\<not> setup_fails e)"
  by (auto simp: main_setup_def setup_fails_def Let_def fatal_def set_reuseport_def
      set_nonblock_def)

lemma finish_exits: "(snd (finish r) = None) = goes_on (snd r)"
  by (cases "snd r") (simp_all add: finish_def)

lemma main_exits:
  "(snd (main e l0 ios) \<noteq> None) = (setup_fails e \<or> list_ex fatal_pass ios)"
proof (cases "snd (main_setup e l0)")
  case (Continue s0)
  then have ms: "main_setup e l0 = (fst (main_setup e l0), Continue s0)"
    by (metis prod.collapse)
  from Continue main_setup_goes_on [of e l0] have ok: "\<not> setup_fails e" by simp
  have "main e l0 ios =
      finish (fst (main_setup e l0) @ fst (event_loop s0 ios), snd (event_loop s0 ios))"
    by (subst main_def, subst ms) simp
  with finish_exits [of "(fst (main_setup e l0) @ fst (event_loop s0 ios), snd (event_loop s0 ios))"]
    event_loop_goes_on [of s0 ios] ok
  show ?thesis by simp
next
  case (Goto_out s)
  then have ms: "main_setup e l0 = (fst (main_setup e l0), Goto_out s)"
    by (metis prod.collapse)
  from Goto_out main_setup_goes_on [of e l0] have bad: "setup_fails e" by simp
  have "main e l0 ios = finish (fst (main_setup e l0), Goto_out s)"
    by (subst main_def, subst ms) simp
  with bad show ?thesis by (simp add: finish_def)
next
  case (Return c)
  then have ms: "main_setup e l0 = (fst (main_setup e l0), Return c)"
    by (metis prod.collapse)
  from Return main_setup_goes_on [of e l0] have bad: "setup_fails e" by simp
  have "main e l0 ios = finish (fst (main_setup e l0), Return c)"
    by (subst main_def, subst ms) simp
  with bad show ?thesis by (simp add: finish_def)
qed

lemma full_send_completes:
  assumes "wait i = WaitReady r" "r AND EPOLLIN = 0" "r AND EPOLLOUT \<noteq> 0"
    and "send i = SendOk (unat (datasize s))" "ctl_rc i = 0"
  shows "\<exists>s'. snd (loop_body s i) = Continue s' \<and> datasize s' = 0 \<and>
              ev_events s' = EPOLLIN OR EPOLLONESHOT"
  using assms
  by (simp add: loop_body_def on_writable_def rearm_def next_after_send_def Let_def)

subsection \<open>The diagnostic of each fatal failure\<close>

lemma diagnostics_Cons [simp]:
  "diagnostics (x # xs) = (if is_diag x then x # diagnostics xs else diagnostics xs)"
  "diagnostics [] = []"
  "diagnostics (xs @ ys) = diagnostics xs @ diagnostics ys"
  by (simp_all add: diagnostics_def)

lemma setup_reports:
  "(goes_on (snd (main_setup e l0)) \<and> setup_failure e = None) \<or>
   (\<not> goes_on (snd (main_setup e l0)) \<and>
    (\<exists>f. setup_failure e = Some f \<and> reports f (diagnostics (fst (main_setup e l0)))))"
  by (auto simp: main_setup_def setup_failure_def reports_def Let_def fatal_def
      set_reuseport_def set_nonblock_def)

lemma reports_simps:
  "reports F_epoll_ctl_mod ds = (ds = [Perror_diag ''main'' 232 ''epoll_ctl''])"
  "reports F_recvfrom ds = (ds = [Perror_diag ''main'' 183 ''recvfrom''])"
  "reports F_sendto ds = (ds = [Perror_diag ''main'' 214 ''sendto''])"
  "reports F_epoll_wait ds = (ds = [Perror_diag ''main'' 163 ''epoll_wait''])"
  by (auto simp: reports_def)

lemma rearm_pass_reports: "pass_reports (rearm_failure i) (rearm s (ctl_rc i))"
  by (simp add: pass_reports_def rearm_def fatal_def Let_def rearm_failure_def reports_simps)

lemma pass_reports_prefix:
  assumes "pass_reports F r" and "\<not> is_diag a"
  shows "pass_reports F (a # fst r, snd r)"
  using assms by (simp add: pass_reports_def split: option.splits if_splits)

lemma on_readable_reports:
  "pass_reports
     (case recv i of
        RecvFail errno \<Rightarrow> if transient errno then rearm_failure i else Some F_recvfrom
      | RecvOk d from fromlen \<Rightarrow> rearm_failure i)
     (on_readable s i)"
proof (cases "recv i")
  case (RecvFail errno)
  show ?thesis
  proof (cases "transient errno")
    case True
    let ?s = "s\<lparr>insaddrlen := SIZEOF_SOCKADDR, ev_events := EPOLLIN OR EPOLLONESHOT\<rparr>"
    from True have "\<not> (errno \<noteq> EINTR \<and> errno \<noteq> EAGAIN)"
      by (simp add: transient_def)
    with RecvFail have "on_readable s i =
        (Recvfrom (sockfd s) MAX_BUFSIZE (recv i) # fst (rearm ?s (ctl_rc i)),
         snd (rearm ?s (ctl_rc i)))"
      by (auto simp: on_readable_def Let_def)
    with pass_reports_prefix [OF rearm_pass_reports [of i ?s],
        of "Recvfrom (sockfd s) MAX_BUFSIZE (recv i)"] True RecvFail
    show ?thesis by simp
  next
    case False
    then have "errno \<noteq> EINTR \<and> errno \<noteq> EAGAIN"
      by (simp add: transient_def)
    with RecvFail False show ?thesis
      by (simp add: on_readable_def Let_def fatal_def pass_reports_def reports_simps)
  qed
next
  case (RecvOk d a al)
  let ?r = "Recvfrom (sockfd s) MAX_BUFSIZE (recv i)"
  let ?s = "s\<lparr>buf := d @ drop (length d) (buf s), insaddr := a, insaddrlen := al,
               datasize := of_nat (length d), bufptr := 0,
               ev_events := EPOLLOUT OR EPOLLONESHOT\<rparr>"
  from RecvOk have "on_readable s i =
      (?r # fst (rearm ?s (ctl_rc i)), snd (rearm ?s (ctl_rc i)))"
    by (simp add: on_readable_def Let_def)
  with pass_reports_prefix [OF rearm_pass_reports [of i ?s], of ?r] RecvOk
  show ?thesis by simp
qed

lemma on_writable_reports:
  "pass_reports
     (case send i of
        SendFail errno \<Rightarrow> if transient errno then rearm_failure i else Some F_sendto
      | SendOk m \<Rightarrow> rearm_failure i)
     (on_writable s i)"
proof (cases "send i")
  case (SendFail errno)
  let ?a = "Sendto (sockfd s) (bufptr s) (datasize s) (send_region s) (insaddr s)
              (insaddrlen s) (send i)"
  show ?thesis
  proof (cases "transient errno")
    case True
    let ?s = "next_after_send s"
    from True have "\<not> (errno \<noteq> EINTR \<and> errno \<noteq> EAGAIN)"
      by (simp add: transient_def)
    with SendFail have "on_writable s i = (?a # fst (rearm ?s (ctl_rc i)), snd (rearm ?s (ctl_rc i)))"
      by (auto simp: on_writable_def Let_def)
    with pass_reports_prefix [OF rearm_pass_reports [of i ?s], of ?a] True SendFail
    show ?thesis by simp
  next
    case False
    then have "errno \<noteq> EINTR \<and> errno \<noteq> EAGAIN"
      by (simp add: transient_def)
    with SendFail False show ?thesis
      by (simp add: on_writable_def Let_def fatal_def pass_reports_def reports_simps)
  qed
next
  case (SendOk m)
  let ?a = "Sendto (sockfd s) (bufptr s) (datasize s) (send_region s) (insaddr s)
              (insaddrlen s) (send i)"
  let ?s = "next_after_send
              (s\<lparr>datasize := datasize s - of_nat m, bufptr := bufptr s + of_nat m\<rparr>)"
  from SendOk have "on_writable s i = (?a # fst (rearm ?s (ctl_rc i)), snd (rearm ?s (ctl_rc i)))"
    by (simp add: on_writable_def Let_def)
  with pass_reports_prefix [OF rearm_pass_reports [of i ?s], of ?a] SendOk
  show ?thesis by simp
qed

lemma loop_body_reports: "pass_reports (pass_failure i) (loop_body s i)"
proof (cases "wait i")
  case (WaitFail errno)
  then show ?thesis
    by (simp add: loop_body_def Let_def fatal_def pass_reports_def pass_failure_def
        reports_simps)
next
  case (WaitReady r)
  let ?s = "s\<lparr>events_events := r\<rparr>" and ?w = "Epoll_wait (epfd s) (WaitReady r)"
  note body = loop_body_ready [OF WaitReady, of s]
  consider (rd) "r AND EPOLLIN \<noteq> 0"
    | (wr) "r AND EPOLLIN = 0" "r AND EPOLLOUT \<noteq> 0"
    | (no) "r AND EPOLLIN = 0" "r AND EPOLLOUT = 0"
    by blast
  then show ?thesis
  proof cases
    case rd
    from pass_reports_prefix [OF on_readable_reports [of i ?s], of ?w] rd body WaitReady
    show ?thesis by (simp add: pass_failure_def)
  next
    case wr
    from pass_reports_prefix [OF on_writable_reports [of i ?s], of ?w] wr body WaitReady
    show ?thesis by (simp add: pass_failure_def)
  next
    case no
    from pass_reports_prefix [OF rearm_pass_reports [of i ?s], of ?w] no body WaitReady
    show ?thesis by (simp add: pass_failure_def)
  qed
qed

lemma event_loop_reports: "pass_reports (loop_failure ios) (event_loop s ios)"
proof (induction ios arbitrary: s)
  case Nil
  then show ?case by (simp add: pass_reports_def)
next
  case (Cons i ios)
  note b = loop_body_reports [of i s]
  show ?case
  proof (cases "snd (loop_body s i)")
    case (Continue s1)
    with b have "pass_failure i = None" "diagnostics (fst (loop_body s i)) = []"
      by (simp_all add: pass_reports_def)
    with Cons.IH [of s1] event_loop_Cons [OF Continue, of ios] show ?thesis
      by (auto simp: pass_reports_def split: option.splits if_splits)
  next
    case (Goto_out s1)
    with b show ?thesis
      by (simp add: pass_reports_def case_prod_unfold split: option.splits)
  next
    case (Return c)
    with b show ?thesis
      by (simp add: pass_reports_def case_prod_unfold split: option.splits)
  qed
qed

lemma main_reports:
  assumes "main e l0 ios = (acts, Some code)"
  shows "\<exists>f. first_failure e ios = Some f \<and> reports f (diagnostics acts)"
proof (cases "snd (main_setup e l0)")
  case (Continue s0)
  then have ms: "main_setup e l0 = (fst (main_setup e l0), Continue s0)"
    by (metis prod.collapse)
  let ?t = "fst (main_setup e l0)" and ?a = "fst (event_loop s0 ios)"
  from setup_reports [of e l0] Continue have sf: "setup_failure e = None" by simp
  from main_setup_ok [of e l0] Continue have dt: "diagnostics ?t = []"
    by (simp add: setup_ok_def)
  have m: "main e l0 ios = finish (?t @ ?a, snd (event_loop s0 ios))"
    by (subst main_def, subst ms) simp
  show ?thesis
  proof (cases "snd (event_loop s0 ios)")
    case (Continue s')
    with m assms show ?thesis by (simp add: finish_def)
  next
    case (Goto_out s')
    with m assms have acts: "acts = ?t @ ?a @ fst (main_out s')"
      by (simp add: finish_def)
    from event_loop_reports [of ios s0] Goto_out
    obtain f where "loop_failure ios = Some f" "reports f (diagnostics ?a)"
      by (auto simp: pass_reports_def split: option.splits)
    with sf dt show ?thesis
      by (simp add: first_failure_def acts out_silent)
  next
    case (Return c)
    with event_loop_pass [of s0 ios] show ?thesis by (simp add: pass_ok_def)
  qed
next
  case (Goto_out s)
  then have ms: "main_setup e l0 = (fst (main_setup e l0), Goto_out s)"
    by (metis prod.collapse)
  have m: "main e l0 ios = finish (fst (main_setup e l0), Goto_out s)"
    by (subst main_def, subst ms) simp
  with assms have acts: "acts = fst (main_setup e l0) @ fst (main_out s)"
    by (simp add: finish_def)
  from setup_reports [of e l0] Goto_out
  obtain f where "setup_failure e = Some f" "reports f (diagnostics (fst (main_setup e l0)))"
    by auto
  then show ?thesis by (simp add: first_failure_def acts out_silent)
next
  case (Return c)
  then have ms: "main_setup e l0 = (fst (main_setup e l0), Return c)"
    by (metis prod.collapse)
  have m: "main e l0 ios = finish (fst (main_setup e l0), Return c)"
    by (subst main_def, subst ms) simp
  with assms have acts: "acts = fst (main_setup e l0)"
    by (simp add: finish_def)
  from setup_reports [of e l0] Return
  obtain f where "setup_failure e = Some f" "reports f (diagnostics (fst (main_setup e l0)))"
    by auto
  then show ?thesis by (simp add: first_failure_def acts)
qed

lemma ex_wait_fails_first: "first_failure ex_setup [ex_wait_fails] = Some F_epoll_wait"
  by (simp add: first_failure_def setup_failure_def pass_failure_def ex_setup_def
      ex_wait_fails_def ex_io_def EINTR_def)

lemmas run_defs = main_def main_setup_def finish_def set_reuseport_def set_nonblock_def
  body_defs

subsection \<open>Interest and pending datagrams\<close>

text \<open>When no empty datagram is received, writable interest is registered exactly while
  a datagram is pending; and an empty datagram is sent back when its one send succeeds.\<close>

lemma log_step_keeps_datagram:
  "(case log_step lg x of None \<Rightarrow> True | Some (B, a, sent) \<Rightarrow> B \<noteq> []) \<or>
   (\<exists>fd n d a al. x = Recvfrom fd n (RecvOk d a al))"
  if "case lg of None \<Rightarrow> True | Some (B, a, sent) \<Rightarrow> B \<noteq> []"
  using that by (cases "(lg, x)" rule: log_step.cases) auto

lemma nonempty_step:
  assumes inv: "nonempty_inv lg s" and ne: "nonempty_recv i" and env: "env_ok s i"
    and go: "snd (loop_body s i) = Continue s'"
  shows "nonempty_inv (echo_log_from lg (fst (loop_body s i))) s'"
proof (cases "wait i")
  case (WaitFail errno)
  from loop_body_interrupted [OF go this] inv show ?thesis
    by (simp add: echo_log_from_def)
next
  case (WaitReady r)
  let ?s = "s\<lparr>events_events := r\<rparr>"
  note body = loop_body_ready [OF WaitReady, of s]
  from inv have inv': "nonempty_inv lg ?s" by (simp add: nonempty_inv_def)
  consider (rd) "r AND EPOLLIN \<noteq> 0"
    | (wr) "r AND EPOLLIN = 0" "r AND EPOLLOUT \<noteq> 0"
    | (no) "r AND EPOLLIN = 0" "r AND EPOLLOUT = 0"
    by blast
  then show ?thesis
  proof cases
    case rd
    with go body have c: "snd (on_readable ?s i) = Continue s'" by simp
    from rd body have l: "echo_log_from lg (fst (loop_body s i)) =
        echo_log_from lg (fst (on_readable ?s i))" by simp
    from on_readable_Continue [OF c, of lg] show ?thesis
    proof (elim disjE exE conjE)
      fix errno
      assume "s' = ?s\<lparr>insaddrlen := SIZEOF_SOCKADDR, ev_events := EPOLLIN OR EPOLLONESHOT\<rparr>"
        and "echo_log_from lg (fst (on_readable ?s i)) = lg"
      with inv in_ne_out l show ?thesis by (simp add: nonempty_inv_def)
    next
      fix d a al
      assume r: "recv i = RecvOk d a al"
        and s': "s' = ?s\<lparr>insaddrlen := al, buf := d @ drop (length d) (buf ?s), insaddr := a,
                   datasize := of_nat (length d), bufptr := 0,
                   ev_events := EPOLLOUT OR EPOLLONESHOT\<rparr>"
        and l': "echo_log_from lg (fst (on_readable ?s i)) = Some (d, a, [])"
      from ne r have d: "d \<noteq> []" by (simp add: nonempty_recv_def)
      from env WaitReady rd r have "length d \<le> MAX_BUFSIZE" by (simp add: env_ok_def)
      then have "unat (of_nat (length d) :: 64 word) = length d" by (rule unat_small)
      with d have "(of_nat (length d) :: 64 word) \<noteq> 0" by auto
      with d l l' show ?thesis by (simp add: nonempty_inv_def s')
    qed
  next
    case wr
    with go body have c: "snd (on_writable ?s i) = Continue s'" by simp
    from wr body have l: "echo_log_from lg (fst (loop_body s i)) =
        echo_log_from lg (fst (on_writable ?s i))" by simp
    from on_writable_Continue [OF c, of lg] obtain x where s': "s' = next_after_send x"
      and l': "echo_log_from lg (fst (on_writable ?s i)) = lg \<or>
               (\<exists>m. echo_log_from lg (fst (on_writable ?s i)) =
                  log_step lg (Sendto (sockfd ?s) (bufptr ?s) (datasize ?s) (send_region ?s)
                             (insaddr ?s) (insaddrlen ?s) (SendOk m)))"
      by blast
    from inv have B: "case lg of None \<Rightarrow> True | Some (B, a, sent) \<Rightarrow> B \<noteq> []"
      by (simp add: nonempty_inv_def)
    from l' have "case echo_log_from lg (fst (on_writable ?s i)) of None \<Rightarrow> True
                  | Some (B, a, sent) \<Rightarrow> B \<noteq> []"
    proof
      assume "echo_log_from lg (fst (on_writable ?s i)) = lg"
      with B show ?thesis by simp
    next
      assume "\<exists>m. echo_log_from lg (fst (on_writable ?s i)) =
                  log_step lg (Sendto (sockfd ?s) (bufptr ?s) (datasize ?s) (send_region ?s)
                             (insaddr ?s) (insaddrlen ?s) (SendOk m))"
      then obtain m where "echo_log_from lg (fst (on_writable ?s i)) =
                  log_step lg (Sendto (sockfd ?s) (bufptr ?s) (datasize ?s) (send_region ?s)
                             (insaddr ?s) (insaddrlen ?s) (SendOk m))" ..
      with log_step_keeps_datagram [OF B] show ?thesis by auto
    qed
    with l s' in_ne_out show ?thesis
      by (simp add: nonempty_inv_def next_after_send_ev)
  next
    case no
    with go body have "snd (rearm ?s (ctl_rc i)) = Continue s'" by simp
    from rearm_step [OF this, of lg] no body inv' show ?thesis by simp
  qed
qed

lemma nonempty_run:
  assumes "nonempty_inv lg s" and "list_all nonempty_recv ios" and "env_ok_run s ios"
    and "snd (event_loop s ios) = Continue s'"
  shows "nonempty_inv (echo_log_from lg (fst (event_loop s ios))) s'"
  using assms
proof (induction ios arbitrary: s lg)
  case Nil
  then show ?case by (simp add: echo_log_from_def)
next
  case (Cons i ios)
  from Cons.prems(4) obtain s1 where s1: "snd (loop_body s i) = Continue s1"
    by (rule event_loop_stops)
  note loop = event_loop_Cons [OF s1, of ios]
  from Cons.prems(2) have ne: "nonempty_recv i" "list_all nonempty_recv ios" by simp_all
  from Cons.prems(3) s1 have env: "env_ok s i" "env_ok_run s1 ios" by simp_all
  from nonempty_step [OF Cons.prems(1) ne(1) env(1) s1]
  have "nonempty_inv (echo_log_from lg (fst (loop_body s i))) s1" .
  from Cons.IH [OF this ne(2) env(2)] Cons.prems(4) loop
  show ?case by (simp add: echo_log_append)
qed

lemma interest_reflects_pending:
  assumes su: "snd (main_setup e l0) = Continue s0"
    and env: "env_ok_run s0 ios"
    and ne: "list_all nonempty_recv ios"
    and go: "snd (event_loop s0 ios) = Continue s"
    and acts: "acts = fst (main_setup e l0) @ fst (event_loop s0 ios)"
  shows "interest_from None acts =
           Some (if echo_pending (echo_log_from None acts) then EPOLLOUT OR EPOLLONESHOT
                 else EPOLLIN OR EPOLLONESHOT)"
proof -
  let ?lg = "echo_log_from None acts"
  from reachable_inv [OF su env go] acts
  have inv: "echo_inv ?lg s" and reg: "interest_from None acts = Some (ev_events s)"
    by simp_all
  from su have ms: "main_setup e l0 = (fst (main_setup e l0), Continue s0)"
    by (metis prod.collapse)
  from setup_inv [OF ms]
  have l0: "echo_log_from None (fst (main_setup e l0)) = None"
    and ev0: "ev_events s0 = EPOLLIN OR EPOLLONESHOT"
    by simp_all
  from ev0 in_ne_out have "nonempty_inv None s0" by (simp add: nonempty_inv_def)
  from nonempty_run [OF this ne env go] have inv2: "nonempty_inv ?lg s"
    by (simp add: acts echo_log_append l0)
  from inv show ?thesis unfolding echo_inv_def
  proof
    assume aw: "awaiting_datagram ?lg s"
    then have ev: "ev_events s = EPOLLIN OR EPOLLONESHOT"
      by (simp add: awaiting_datagram_def)
    from aw inv2 have "\<not> echo_pending ?lg"
      by (auto simp: awaiting_datagram_def nonempty_inv_def echo_pending_def echoed_def
          split: option.splits)
    with reg ev show ?thesis by simp
  next
    assume ec: "echoing_datagram ?lg s"
    then obtain B a sent where l: "?lg = Some (B, a, sent)"
      and ev: "ev_events s = EPOLLOUT OR EPOLLONESHOT"
      and sum: "unat (bufptr s) + unat (datasize s) = length B"
      and sofar: "echoed sent = take (unat (bufptr s)) B"
      by (rule echoing_cases)
    from inv2 ev have "datasize s \<noteq> 0" by (simp add: nonempty_inv_def)
    then have "unat (datasize s) \<noteq> 0" by (simp add: unat_eq_0)
    with sum have "unat (bufptr s) < length B" by simp
    with sofar have "length (echoed sent) < length B" by simp
    then have "echoed sent \<noteq> B" by auto
    with l have "echo_pending ?lg" by (simp add: echo_pending_def)
    with reg ev show ?thesis by simp
  qed
qed

lemma empty_datagram_sent_back:
  assumes "wait i = WaitReady r" "r AND EPOLLIN \<noteq> 0" "recv i = RecvOk [] a al" "ctl_rc i = 0"
    and "wait j = WaitReady r'" "r' AND EPOLLIN = 0" "r' AND EPOLLOUT \<noteq> 0"
    and "send j = SendOk 0" "ctl_rc j = 0"
  shows "\<exists>s1 s2.
     loop_body s i =
       ([Epoll_wait (epfd s) (WaitReady r), Recvfrom (sockfd s) MAX_BUFSIZE (RecvOk [] a al),
         Epoll_ctl (epfd s) EPOLL_CTL_MOD (sockfd s) (EPOLLOUT OR EPOLLONESHOT) 0],
        Continue s1) \<and>
     datasize s1 = 0 \<and> ev_events s1 = EPOLLOUT OR EPOLLONESHOT \<and> insaddr s1 = a \<and>
     loop_body s1 j =
       ([Epoll_wait (epfd s) (WaitReady r'), Sendto (sockfd s) 0 0 [] a al (SendOk 0),
         Epoll_ctl (epfd s) EPOLL_CTL_MOD (sockfd s) (EPOLLIN OR EPOLLONESHOT) 0],
        Continue s2) \<and>
     ev_events s2 = EPOLLIN OR EPOLLONESHOT"
  using assms
  by (simp add: loop_body_def on_readable_def on_writable_def rearm_def next_after_send_def
      send_region_def Let_def)

section \<open>Theorems\<close>

subsection \<open>Echo\<close>

text \<open>
  C1. In every run the kernel can produce, take the datagram \<open>B\<close> received last, its
  sender, and the successful sends since. Whenever the service is back in the state that
  awaits a read, the bytes those sends took, in order, are exactly \<open>B\<close>; while the echo is
  still going on, they are the part of \<open>B\<close> before the cursor, and the bytes the next
  send is given are the rest of \<open>B\<close>; every one of the sends went to the sender of \<open>B\<close>.
  A successful receive of \<open>n\<close> bytes sets \<open>datasize\<close> to \<open>n\<close> and the cursor to the start
  of the buffer, and a successful send of \<open>m\<close> bytes moves the cursor forward by \<open>m\<close> and
  takes \<open>m\<close> off \<open>datasize\<close>, leaving the buffer and the saved peer as they were. This
  holds for every length the buffer admits, so for \<open>0 < length B \<le> 1472\<close>.
\<close>

theorem echo_identity:
  assumes su: "snd (main_setup e l0) = Continue s0"
    and env: "env_ok_run s0 ios"
    and go: "snd (event_loop s0 ios) = Continue s"
    and lg: "echo_log_from None (fst (main_setup e l0) @ fst (event_loop s0 ios)) =
               Some (B, peer, sent)"
  shows "(ev_events s = EPOLLIN OR EPOLLONESHOT \<longrightarrow> echoed sent = B) \<and>
         (ev_events s = EPOLLOUT OR EPOLLONESHOT \<longrightarrow>
            echoed sent @ send_region s = B \<and> insaddr s = peer \<and>
            unat (bufptr s) = length (echoed sent) \<and>
            unat (bufptr s) + unat (datasize s) = length B) \<and>
         (\<forall>x\<in>set sent. fst x = peer) \<and>
         (\<forall>s1 i r d a al s2.
            wait i = WaitReady r \<and> r AND EPOLLIN \<noteq> 0 \<and> recv i = RecvOk d a al \<and>
            snd (loop_body s1 i) = Continue s2 \<longrightarrow>
            datasize s2 = of_nat (length d) \<and> bufptr s2 = 0 \<and> insaddr s2 = a \<and>
            buf s2 = d @ drop (length d) (buf s1)) \<and>
         (\<forall>s1 i r m s2.
            wait i = WaitReady r \<and> r AND EPOLLIN = 0 \<and> r AND EPOLLOUT \<noteq> 0 \<and>
            send i = SendOk m \<and> snd (loop_body s1 i) = Continue s2 \<longrightarrow>
            datasize s2 = datasize s1 - of_nat m \<and> bufptr s2 = bufptr s1 + of_nat m \<and>
            buf s2 = buf s1 \<and> insaddr s2 = insaddr s1)"
proof (intro conjI impI allI)
  from reachable_inv(1) [OF su env go] lg
  have inv: "echo_inv (Some (B, peer, sent)) s" by simp
  {
    assume "ev_events s = EPOLLIN OR EPOLLONESHOT"
    with inv in_ne_out show "echoed sent = B"
      by (auto simp: echo_inv_def awaiting_datagram_def echoing_datagram_def)
  }
  have ec: "echoing_datagram (Some (B, peer, sent)) s"
    if "ev_events s = EPOLLOUT OR EPOLLONESHOT"
    using that inv in_ne_out by (auto simp: echo_inv_def awaiting_datagram_def)
  {
    assume w: "ev_events s = EPOLLOUT OR EPOLLONESHOT"
    from ec [OF w] have sofar: "echoed sent = take (unat (bufptr s)) B"
      and sum: "unat (bufptr s) + unat (datasize s) = length B"
      and peer: "insaddr s = peer"
      by (simp_all add: echoing_datagram_def)
    from echoing_region [OF ec [OF w]] sofar
    show "echoed sent @ send_region s = B" by simp
    from peer show "insaddr s = peer" .
    from sofar sum show "unat (bufptr s) = length (echoed sent)" by simp
    from sum show "unat (bufptr s) + unat (datasize s) = length B" .
  }
  from inv show "\<forall>x\<in>set sent. fst x = peer"
    by (auto simp: echo_inv_def awaiting_datagram_def echoing_datagram_def)
next
  fix s1 i r d a al s2
  assume h: "wait i = WaitReady r \<and> r AND EPOLLIN \<noteq> 0 \<and> recv i = RecvOk d a al \<and>
            snd (loop_body s1 i) = Continue s2"
  then have w: "wait i = WaitReady r" and rd: "r AND EPOLLIN \<noteq> 0"
    and go2: "snd (loop_body s1 i) = Continue s2"
    by simp_all
  from go2 rd loop_body_ready [OF w, of s1]
  have "snd (on_readable (s1\<lparr>events_events := r\<rparr>) i) = Continue s2"
    by simp
  from on_readable_Continue [OF this, of None] h
  have s2: "s2 = s1\<lparr>events_events := r, insaddrlen := al,
                   buf := d @ drop (length d) (buf s1), insaddr := a,
                   datasize := of_nat (length d), bufptr := 0,
                   ev_events := EPOLLOUT OR EPOLLONESHOT\<rparr>"
    by auto
  show "datasize s2 = of_nat (length d)" "bufptr s2 = 0" "insaddr s2 = a"
    "buf s2 = d @ drop (length d) (buf s1)"
    by (simp_all add: s2)
next
  fix s1 i r m s2
  assume h: "wait i = WaitReady r \<and> r AND EPOLLIN = 0 \<and> r AND EPOLLOUT \<noteq> 0 \<and>
            send i = SendOk m \<and> snd (loop_body s1 i) = Continue s2"
  then have w: "wait i = WaitReady r" and rd: "r AND EPOLLIN = 0" "r AND EPOLLOUT \<noteq> 0"
    and go2: "snd (loop_body s1 i) = Continue s2"
    by simp_all
  from go2 rd loop_body_ready [OF w, of s1]
  have "snd (on_writable (s1\<lparr>events_events := r\<rparr>) i) = Continue s2"
    by simp
  from on_writable_Continue [OF this, of None] h
  have s2: "s2 = next_after_send (s1\<lparr>events_events := r, datasize := datasize s1 - of_nat m,
                                   bufptr := bufptr s1 + of_nat m\<rparr>)"
    by auto
  show "datasize s2 = datasize s1 - of_nat m" "bufptr s2 = bufptr s1 + of_nat m"
    "buf s2 = buf s1" "insaddr s2 = insaddr s1"
    by (simp_all add: s2 next_after_send_def)
qed

theorem echo_identity_witness:
  "snd (main_setup ex_setup ex_locals) = Continue ex_locals \<and>
   env_ok_run ex_locals ex_run \<and>
   snd (event_loop ex_locals ex_run) = Continue ex_final \<and>
   echo_log_from None (fst (main_setup ex_setup ex_locals) @ fst (event_loop ex_locals ex_run)) =
     Some ([1, 2, 3], ex_peer, [(ex_peer, [1, 2]), (ex_peer, [3])]) \<and>
   ev_events ex_final = EPOLLIN OR EPOLLONESHOT \<and>
   echoed [(ex_peer, [1, 2]), (ex_peer, [3])] = [1, 2, 3]"
proof -
  have "ev_events ex_final = EPOLLIN OR EPOLLONESHOT"
    by (simp add: ex_final_def ex_locals_def)
  with echo_identity [OF ex_setup_runs ex_run_env ex_run_state ex_run_log]
    ex_setup_runs ex_run_env ex_run_state ex_run_log
  show ?thesis by blast
qed

subsection \<open>The two states\<close>

text \<open>
  C2. Between two passes of the loop, in every run the kernel can produce, the service is
  awaiting a datagram or echoing one, and never both. While it is echoing, the bytes sent
  so far followed by the \<open>datasize\<close> bytes at the cursor make up the datagram received,
  and the saved peer address is its sender. One more pass that goes on leaves the service
  in exactly one of the two states again.
\<close>

theorem two_states:
  assumes su: "snd (main_setup e l0) = Continue s0"
    and env: "env_ok_run s0 ios"
    and go: "snd (event_loop s0 ios) = Continue s"
    and lg: "lg = echo_log_from None (fst (main_setup e l0) @ fst (event_loop s0 ios))"
  shows "(awaiting_datagram lg s \<or> echoing_datagram lg s) \<and>
         \<not> (awaiting_datagram lg s \<and> echoing_datagram lg s) \<and>
         (echoing_datagram lg s \<longrightarrow>
            (\<exists>B peer sent. lg = Some (B, peer, sent) \<and> echoed sent @ send_region s = B \<and>
               length (send_region s) = unat (datasize s) \<and> insaddr s = peer)) \<and>
         (\<forall>i s'. env_ok s i \<and> snd (loop_body s i) = Continue s' \<longrightarrow>
            (awaiting_datagram (echo_log_from lg (fst (loop_body s i))) s' \<or>
             echoing_datagram (echo_log_from lg (fst (loop_body s i))) s') \<and>
            \<not> (awaiting_datagram (echo_log_from lg (fst (loop_body s i))) s' \<and>
               echoing_datagram (echo_log_from lg (fst (loop_body s i))) s'))"
proof (intro conjI impI allI)
  from reachable_inv(1) [OF su env go] lg have inv: "echo_inv lg s" by simp
  then show "awaiting_datagram lg s \<or> echoing_datagram lg s"
    by (simp add: echo_inv_def)
  show "\<not> (awaiting_datagram lg s \<and> echoing_datagram lg s)"
    by (rule states_exclusive)
  {
    assume ec: "echoing_datagram lg s"
    then obtain B a sent where l: "lg = Some (B, a, sent)"
      and peer: "insaddr s = a"
      and sum: "unat (bufptr s) + unat (datasize s) = length B"
      and sofar: "echoed sent = take (unat (bufptr s)) B"
      by (rule echoing_cases)
    from ec l have region: "send_region s = drop (unat (bufptr s)) B"
      by (simp add: echoing_region)
    with sofar sum peer l
    show "\<exists>B peer sent. lg = Some (B, peer, sent) \<and> echoed sent @ send_region s = B \<and>
             length (send_region s) = unat (datasize s) \<and> insaddr s = peer"
      by simp
  }
  fix i s'
  assume "env_ok s i \<and> snd (loop_body s i) = Continue s'"
  then have "env_ok s i" "snd (loop_body s i) = Continue s'" by simp_all
  from loop_body_step [OF inv this]
  show "awaiting_datagram (echo_log_from lg (fst (loop_body s i))) s' \<or>
        echoing_datagram (echo_log_from lg (fst (loop_body s i))) s'"
    by (simp add: echo_inv_def)
  show "\<not> (awaiting_datagram (echo_log_from lg (fst (loop_body s i))) s' \<and>
           echoing_datagram (echo_log_from lg (fst (loop_body s i))) s')"
    by (rule states_exclusive)
qed

theorem two_states_witness:
  "snd (main_setup ex_setup ex_locals) = Continue ex_locals \<and>
   env_ok_run ex_locals ex_run \<and>
   snd (event_loop ex_locals ex_run) = Continue ex_final \<and>
   (awaiting_datagram (Some ([1, 2, 3], ex_peer, [(ex_peer, [1, 2]), (ex_peer, [3])])) ex_final \<or>
    echoing_datagram (Some ([1, 2, 3], ex_peer, [(ex_peer, [1, 2]), (ex_peer, [3])])) ex_final) \<and>
   \<not> (awaiting_datagram (Some ([1, 2, 3], ex_peer, [(ex_peer, [1, 2]), (ex_peer, [3])])) ex_final \<and>
      echoing_datagram (Some ([1, 2, 3], ex_peer, [(ex_peer, [1, 2]), (ex_peer, [3])])) ex_final)"
  using two_states [OF ex_setup_runs ex_run_env ex_run_state ex_run_log [symmetric]]
    ex_setup_runs ex_run_env ex_run_state
  by blast

subsection \<open>Re-arming\<close>

text \<open>
  C3 does not hold of the code. After an empty datagram has been received the watcher
  holds writable one-shot interest, and the datagram is pending. When the send then
  fails with \<open>EAGAIN\<close>, the pass re-arms readable one-shot interest although no send has
  succeeded: the datagram is still pending, and the registered interest is the one of a
  service that awaits a datagram. The run is one the kernel can produce. (In runs that
  receive no empty datagram the registered interest is writable exactly while a datagram
  is pending: \<open>interest_reflects_pending\<close>.)
\<close>

theorem readable_interest_while_pending:
  "snd (main ex_setup ex_locals [ex_empty_recv]) = None \<and>
   env_ok_run ex_locals [ex_empty_recv, ex_send_eagain] \<and>
   echo_log_from None (fst (main ex_setup ex_locals [ex_empty_recv])) =
     Some ([], ex_peer, []) \<and>
   interest_from None (fst (main ex_setup ex_locals [ex_empty_recv])) =
     Some (EPOLLOUT OR EPOLLONESHOT) \<and>
   snd (main ex_setup ex_locals [ex_empty_recv, ex_send_eagain]) = None \<and>
   echo_log_from None (fst (main ex_setup ex_locals [ex_empty_recv, ex_send_eagain])) =
     Some ([], ex_peer, []) \<and>
   interest_from None (fst (main ex_setup ex_locals [ex_empty_recv, ex_send_eagain])) =
     Some (EPOLLIN OR EPOLLONESHOT) \<and>
   echo_pending (Some ([], ex_peer, []))"
  by (simp add: run_defs env_ok_def echo_log_from_def interest_from_def echo_pending_def
      ex_setup_def ex_locals_def ex_empty_recv_def ex_send_eagain_def epoll_consts
      SIZEOF_SOCKADDR_def EINTR_def EAGAIN_def MAX_BUFSIZE_def EXIT_SUCCESS_def)

subsection \<open>One datagram in flight\<close>

text \<open>
  C4. In every state a run the kernel can produce reaches, and for every answer the
  kernel can give next: when writable interest is registered, the pass calls no
  \<open>recvfrom\<close>; a pass that calls \<open>recvfrom\<close> starts with readable interest registered and
  with everything received before sent back; and a pass that leaves the echoing state
  has sent, leaves \<open>datasize\<close> at zero, and ends by re-arming readable interest.
\<close>

theorem single_flight:
  assumes su: "snd (main_setup e l0) = Continue s0"
    and env: "env_ok_run s0 ios"
    and go: "snd (event_loop s0 ios) = Continue s"
    and nxt: "env_ok s i"
    and acts: "acts = fst (main_setup e l0) @ fst (event_loop s0 ios)"
    and lg: "lg = echo_log_from None acts"
  shows "(ev_events s = EPOLLOUT OR EPOLLONESHOT \<longrightarrow>
            (\<forall>x\<in>set (fst (loop_body s i)). \<not> is_recvfrom x)) \<and>
         ((\<exists>x\<in>set (fst (loop_body s i)). is_recvfrom x) \<longrightarrow>
            interest_from None acts = Some (EPOLLIN OR EPOLLONESHOT) \<and>
            awaiting_datagram lg s) \<and>
         (\<forall>s'. ev_events s = EPOLLOUT OR EPOLLONESHOT \<and> snd (loop_body s i) = Continue s' \<and>
               ev_events s' \<noteq> EPOLLOUT OR EPOLLONESHOT \<longrightarrow>
            datasize s' = 0 \<and> ev_events s' = EPOLLIN OR EPOLLONESHOT \<and>
            (\<exists>x\<in>set (fst (loop_body s i)). is_sendto x) \<and>
            last (fst (loop_body s i)) =
              Epoll_ctl (epfd s) EPOLL_CTL_MOD (sockfd s) (EPOLLIN OR EPOLLONESHOT) 0)"
proof (intro conjI impI allI)
  from reachable_inv [OF su env go] acts lg
  have inv: "echo_inv lg s" and reg: "interest_from None acts = Some (ev_events s)"
    by simp_all
  have mask: "r AND NOT (ev_events s OR EPOLLERR OR EPOLLHUP) = 0" if "wait i = WaitReady r" for r
    using nxt that by (simp add: env_ok_def)
  {
    assume w: "ev_events s = EPOLLOUT OR EPOLLONESHOT"
    show "\<forall>x\<in>set (fst (loop_body s i)). \<not> is_recvfrom x"
    proof (rule ccontr)
      assume "\<not> (\<forall>x\<in>set (fst (loop_body s i)). \<not> is_recvfrom x)"
      then have "\<exists>x\<in>set (fst (loop_body s i)). is_recvfrom x" by simp
      then obtain r where r: "wait i = WaitReady r" "r AND EPOLLIN \<noteq> 0"
        by (rule recv_needs_in)
      from mask [OF r(1)] w have "r AND EPOLLIN = 0"
        by (simp add: no_in_when_write)
      with r(2) show False by simp
    qed
  }
  {
    assume "\<exists>x\<in>set (fst (loop_body s i)). is_recvfrom x"
    then obtain r where r: "wait i = WaitReady r" "r AND EPOLLIN \<noteq> 0"
      by (rule recv_needs_in)
    from echoing_no_in [OF _ mask [OF r(1)]] r(2) have "\<not> echoing_datagram lg s"
      by blast
    with inv show aw: "awaiting_datagram lg s" by (simp add: echo_inv_def)
    with reg show "interest_from None acts = Some (EPOLLIN OR EPOLLONESHOT)"
      by (simp add: awaiting_datagram_def)
  }
  fix s'
  assume h: "ev_events s = EPOLLOUT OR EPOLLONESHOT \<and> snd (loop_body s i) = Continue s' \<and>
               ev_events s' \<noteq> EPOLLOUT OR EPOLLONESHOT"
  then have w: "ev_events s = EPOLLOUT OR EPOLLONESHOT"
    and c: "snd (loop_body s i) = Continue s'"
    and ne: "ev_events s' \<noteq> EPOLLOUT OR EPOLLONESHOT"
    by simp_all
  have "datasize s' = 0 \<and> ev_events s' = EPOLLIN OR EPOLLONESHOT \<and>
        (\<exists>x\<in>set (fst (loop_body s i)). is_sendto x) \<and>
        last (fst (loop_body s i)) =
          Epoll_ctl (epfd s) EPOLL_CTL_MOD (sockfd s) (EPOLLIN OR EPOLLONESHOT) 0"
  proof (cases "wait i")
    case (WaitFail errno)
    from loop_body_interrupted [OF c this] w ne show ?thesis by simp
  next
    case (WaitReady r)
    let ?s = "s\<lparr>events_events := r\<rparr>"
    from mask [OF WaitReady] w have noin: "r AND EPOLLIN = 0"
      by (simp add: no_in_when_write)
    note body = loop_body_ready [OF WaitReady, of s]
    show ?thesis
    proof (cases "r AND EPOLLOUT = 0")
      case True
      with noin c body have "snd (rearm ?s (ctl_rc i)) = Continue s'" by simp
      from rearm_trace [OF this] w ne show ?thesis by simp
    next
      case False
      with noin c body have cw: "snd (on_writable ?s i) = Continue s'" by simp
      from on_writable_Continue [OF cw, of None] obtain x where "s' = next_after_send x"
        by blast
      with ne have ev': "ev_events s' = EPOLLIN OR EPOLLONESHOT" and d': "datasize s' = 0"
        by (simp_all add: next_after_send_ev split: if_splits)
      from on_writable_trace [OF cw] noin False body
      have "\<exists>x\<in>set (fst (loop_body s i)). is_sendto x" by simp
      with ev' d' loop_body_last [OF c WaitReady] show ?thesis by simp
    qed
  qed
  then show "datasize s' = 0" "ev_events s' = EPOLLIN OR EPOLLONESHOT"
    "\<exists>x\<in>set (fst (loop_body s i)). is_sendto x"
    "last (fst (loop_body s i)) =
       Epoll_ctl (epfd s) EPOLL_CTL_MOD (sockfd s) (EPOLLIN OR EPOLLONESHOT) 0"
    by simp_all
qed

theorem single_flight_witness:
  "snd (main_setup ex_setup ex_locals) = Continue ex_locals \<and>
   env_ok_run ex_locals [ex_io, ex_partial] \<and>
   snd (event_loop ex_locals [ex_io, ex_partial]) = Continue ex_mid \<and>
   env_ok ex_mid ex_rest \<and>
   ev_events ex_mid = EPOLLOUT OR EPOLLONESHOT \<and>
   \<not> (\<exists>x\<in>set (fst (loop_body ex_mid ex_rest)). is_recvfrom x)"
proof -
  have "ev_events ex_mid = EPOLLOUT OR EPOLLONESHOT"
    by (simp add: ex_mid_def)
  with single_flight [OF ex_setup_runs ex_prefix_env ex_prefix_state ex_mid_env refl refl]
    ex_setup_runs ex_prefix_env ex_prefix_state ex_mid_env
  show ?thesis by blast
qed

subsection \<open>Transient failures\<close>

text \<open>
  C5. The frame part of the claim holds: a receive or a send that fails with \<open>EINTR\<close> or
  \<open>EAGAIN\<close> leaves \<open>datasize\<close>, the cursor, the buffer and the saved peer address as they
  were, and is not fatal (\<open>transient_failure_frame\<close>; the length of the peer address is
  reset to \<open>sizeof(struct sockaddr)\<close> before every receive). The re-arming part fails in one
  case. After an empty datagram the service is echoing with \<open>datasize = 0\<close>; when the
  send then fails with \<open>EAGAIN\<close>, lines 222-223 find \<open>datasize\<close> zero and re-arm readable
  interest, so the service awaits the next datagram and the empty one is never sent back.
\<close>

theorem transient_send_rearms_readable:
  "snd (loop_body ex_locals ex_empty_recv) = Continue ex_pending \<and>
   ev_events ex_pending = EPOLLOUT OR EPOLLONESHOT \<and>
   env_ok ex_pending ex_send_eagain \<and>
   loop_body ex_pending ex_send_eagain =
     ([Epoll_wait 4 (WaitReady EPOLLOUT),
       Sendto 3 0 0 [] ex_peer 16 (SendFail EAGAIN),
       Epoll_ctl 4 EPOLL_CTL_MOD 3 (EPOLLIN OR EPOLLONESHOT) 0],
      Continue (ex_pending\<lparr>events_events := EPOLLOUT,
                            ev_events := EPOLLIN OR EPOLLONESHOT\<rparr>))"
  by (simp add: body_defs env_ok_def ex_locals_def ex_empty_recv_def ex_send_eagain_def
      ex_pending_def epoll_consts SIZEOF_SOCKADDR_def EINTR_def EAGAIN_def)

subsection \<open>The readiness wait\<close>

text \<open>
  C6. When \<open>epoll_wait\<close> fails with \<open>EINTR\<close>, the pass through the loop makes no other
  call (no receive, no send, no re-arm), leaves every local variable as it was, and the
  loop goes on to wait again. When it fails with any other errno, the loop is left: the
  diagnostic of line 163 is written, the exit path closes the descriptors and frees the
  buffer, and the exit status is \<open>EXIT_FAILURE\<close>.
\<close>

theorem wait_failure:
  "(wait i = WaitFail EINTR \<longrightarrow>
      loop_body s i = ([Epoll_wait (epfd s) (WaitFail EINTR)], Continue s) \<and>
      event_loop s (i # ios) =
        (Epoll_wait (epfd s) (WaitFail EINTR) # fst (event_loop s ios),
         snd (event_loop s ios))) \<and>
   (\<forall>errno. errno \<noteq> EINTR \<and> wait i = WaitFail errno \<longrightarrow>
      finish (event_loop s (i # ios)) =
        ([Epoll_wait (epfd s) (WaitFail errno), Perror_diag ''main'' 163 ''epoll_wait''] @
           fst (main_out (s\<lparr>ret := EXIT_FAILURE\<rparr>)), Some EXIT_FAILURE))"
  by (simp add: loop_body_def fatal_def finish_def main_out_def)

theorem wait_failure_witness:
  "loop_body ex_locals (ex_io\<lparr>wait := WaitFail EINTR\<rparr>) =
     ([Epoll_wait 4 (WaitFail EINTR)], Continue ex_locals) \<and>
   finish (event_loop ex_locals [ex_io\<lparr>wait := WaitFail 9\<rparr>]) =
     ([Epoll_wait 4 (WaitFail 9), Perror_diag ''main'' 163 ''epoll_wait'', Close 4, Close 3,
       Free], Some EXIT_FAILURE)"
proof -
  have a: "wait (ex_io\<lparr>wait := WaitFail EINTR\<rparr>) = WaitFail EINTR"
    by simp
  have b: "(9::int) \<noteq> EINTR \<and> wait (ex_io\<lparr>wait := WaitFail 9\<rparr>) = WaitFail 9"
    by (simp add: EINTR_def)
  have c: "fst (main_out (ex_locals\<lparr>ret := EXIT_FAILURE\<rparr>)) = [Close 4, Close 3, Free]"
    by (simp add: main_out_def ex_locals_def)
  have d: "epfd ex_locals = 4"
    by (simp add: ex_locals_def)
  from wait_failure [of "ex_io\<lparr>wait := WaitFail EINTR\<rparr>" ex_locals "[]"] a d
  have 1: "loop_body ex_locals (ex_io\<lparr>wait := WaitFail EINTR\<rparr>) =
     ([Epoll_wait 4 (WaitFail EINTR)], Continue ex_locals)"
    by simp
  from wait_failure [of "ex_io\<lparr>wait := WaitFail 9\<rparr>" ex_locals "[]"] b
  have "finish (event_loop ex_locals [ex_io\<lparr>wait := WaitFail 9\<rparr>]) =
        ([Epoll_wait (epfd ex_locals) (WaitFail 9), Perror_diag ''main'' 163 ''epoll_wait''] @
           fst (main_out (ex_locals\<lparr>ret := EXIT_FAILURE\<rparr>)), Some EXIT_FAILURE)"
    by blast
  with c d have 2: "finish (event_loop ex_locals [ex_io\<lparr>wait := WaitFail 9\<rparr>]) =
     ([Epoll_wait 4 (WaitFail 9), Perror_diag ''main'' 163 ''epoll_wait'', Close 4, Close 3,
       Free], Some EXIT_FAILURE)"
    by simp
  from 1 2 show ?thesis by simp
qed

subsection \<open>The socket's options\<close>

text \<open>
  C7. On a fresh socket, a successful \<open>set_nonblock\<close> leaves \<open>SO_REUSEPORT\<close> set and the
  socket blocking, and a successful \<open>set_reuseport\<close> leaves the socket non-blocking and
  \<open>SO_REUSEPORT\<close> unset: each does what the other's name says. When the start-up
  succeeds, both are set on the socket.
\<close>

theorem swapped_helpers:
  "sock_after fd (Socket fd # fst (set_nonblock fd 0)) = \<lparr>reuseport = True, nonblock = False\<rparr> \<and>
   (flags \<noteq> - 1 \<and> rc \<noteq> - 1 \<longrightarrow>
      snd (set_reuseport fd flags rc) = 0 \<and>
      sock_after fd (Socket fd # fst (set_reuseport fd flags rc)) =
        \<lparr>reuseport = False, nonblock = True\<rparr>) \<and>
   (main_setup e l0 = (t, Continue s) \<longrightarrow>
      sock_after (sockfd s) t = \<lparr>reuseport = True, nonblock = True\<rparr>)"
proof (intro conjI impI)
  show "sock_after fd (Socket fd # fst (set_nonblock fd 0)) = \<lparr>reuseport = True, nonblock = False\<rparr>"
    by (simp add: sock_after_def set_nonblock_def)
next
  assume "flags \<noteq> - 1 \<and> rc \<noteq> - 1"
  then show "snd (set_reuseport fd flags rc) = 0"
    by (auto simp: set_reuseport_def)
next
  assume "flags \<noteq> - 1 \<and> rc \<noteq> - 1"
  then show "sock_after fd (Socket fd # fst (set_reuseport fd flags rc)) =
        \<lparr>reuseport = False, nonblock = True\<rparr>"
    by (auto simp: sock_after_def set_reuseport_def nonblock_bit)
next
  assume "main_setup e l0 = (t, Continue s)"
  then show "sock_after (sockfd s) t = \<lparr>reuseport = True, nonblock = True\<rparr>"
    by (auto simp: main_setup_def Let_def fatal_def set_reuseport_def set_nonblock_def
        sock_after_def nonblock_bit split: if_splits)
qed

theorem swapped_helpers_witness:
  "(2::int) \<noteq> - 1 \<and> (0::int) \<noteq> - 1 \<and>
   sock_after 3 (Socket 3 # fst (set_reuseport 3 2 0)) = \<lparr>reuseport = False, nonblock = True\<rparr> \<and>
   main_setup ex_setup ex_locals =
     ([Malloc MAX_BUFSIZE True, Socket 3, Fcntl_getfl 3 2, Fcntl_setfl 3 (2 OR O_NONBLOCK) 0,
       Bind 3 5123 ''127.0.0.1'' 0, Setsockopt 3 SOL_SOCKET SO_REUSEPORT 1 0, Epoll_create1 4,
       Epoll_ctl 4 EPOLL_CTL_ADD 3 (EPOLLIN OR EPOLLONESHOT) 0], Continue ex_locals) \<and>
   sock_after 3
     [Malloc MAX_BUFSIZE True, Socket 3, Fcntl_getfl 3 2, Fcntl_setfl 3 (2 OR O_NONBLOCK) 0,
      Bind 3 5123 ''127.0.0.1'' 0, Setsockopt 3 SOL_SOCKET SO_REUSEPORT 1 0, Epoll_create1 4,
      Epoll_ctl 4 EPOLL_CTL_ADD 3 (EPOLLIN OR EPOLLONESHOT) 0] =
     \<lparr>reuseport = True, nonblock = True\<rparr>"
proof -
  let ?t = "[Malloc MAX_BUFSIZE True, Socket 3, Fcntl_getfl 3 2, Fcntl_setfl 3 (2 OR O_NONBLOCK) 0,
      Bind 3 5123 ''127.0.0.1'' 0, Setsockopt 3 SOL_SOCKET SO_REUSEPORT 1 0, Epoll_create1 4,
      Epoll_ctl 4 EPOLL_CTL_ADD 3 (EPOLLIN OR EPOLLONESHOT) 0]"
  have ms: "main_setup ex_setup ex_locals = (?t, Continue ex_locals)"
    using ex_setup_trace ex_setup_runs by (metis prod.collapse)
  have fd: "sockfd ex_locals = 3" by (simp add: ex_locals_def)
  from swapped_helpers [of 3 2 0 ex_setup ex_locals ?t ex_locals] ms fd
  show ?thesis by simp
qed

subsection \<open>Exit\<close>

text \<open>
  C9. Whenever the program exits, every descriptor it opened has been closed and the
  buffer is not allocated. The exit path closes the epoll descriptor when it is
  non-negative, the socket when it is non-negative, and frees the buffer.
\<close>

theorem exit_releases_everything:
  assumes "main e l0 ios = (acts, Some code)"
  shows "open_fds acts = {} \<and> \<not> buf_live acts \<and>
         (\<forall>s. (0 \<le> epfd s \<longrightarrow> Close (epfd s) \<in> set (fst (main_out s))) \<and>
              (0 \<le> sockfd s \<longrightarrow> Close (sockfd s) \<in> set (fst (main_out s))) \<and>
              Free \<in> set (fst (main_out s)))"
  using main_ended [OF assms] by (simp add: main_out_def)

theorem exit_releases_everything_witness:
  "main ex_bind_fails ex_locals [] =
     ([Malloc MAX_BUFSIZE True, Socket 3, Fcntl_getfl 3 2, Fcntl_setfl 3 (2 OR O_NONBLOCK) 0,
       Bind 3 5123 ''127.0.0.1'' (- 1), Perror_diag ''main'' 134 ''bind'', Close 3, Free],
      Some EXIT_FAILURE) \<and>
   open_fds
     [Malloc MAX_BUFSIZE True, Socket 3, Fcntl_getfl 3 2, Fcntl_setfl 3 (2 OR O_NONBLOCK) 0,
      Bind 3 5123 ''127.0.0.1'' (- 1), Perror_diag ''main'' 134 ''bind'', Close 3, Free] = {} \<and>
   \<not> buf_live
     [Malloc MAX_BUFSIZE True, Socket 3, Fcntl_getfl 3 2, Fcntl_setfl 3 (2 OR O_NONBLOCK) 0,
      Bind 3 5123 ''127.0.0.1'' (- 1), Perror_diag ''main'' 134 ''bind'', Close 3, Free]"
  using exit_releases_everything [OF ex_bind_fails_run] ex_bind_fails_run by blast

text \<open>
  C8, as stated, fails when \<open>malloc\<close> fails: the only diagnostic is the message of line
  108, with the size of the buffer and neither the function name nor a source line.
\<close>

theorem alloc_diagnostic_counterexample:
  "snd (main ex_no_memory ex_locals []) = Some EXIT_FAILURE \<and>
   diagnostics (fst (main ex_no_memory ex_locals [])) = [Alloc_diag MAX_BUFSIZE] \<and>
   \<not> names_location (Alloc_diag MAX_BUFSIZE)"
  by (simp add: main_def main_setup_def finish_def diagnostics_def ex_no_memory_def
      ex_setup_def Let_def)

text \<open>
  C8, amended. The program exits exactly when a start-up call fails or a pass meets a
  fatal failure. Whenever it exits, the exit status is \<open>EXIT_FAILURE\<close>, never
  \<open>EXIT_SUCCESS\<close>, and exactly one diagnostic has been written, about the first call that
  failed. When that call is \<open>malloc\<close>, it is the message of the failed allocation with the
  size of the buffer, without function name or source line. Otherwise it is what
  \<open>ON_ERROR_PERROR_GOTO\<close> writes: the function name \<open>main\<close>, the source line of the check
  that caught the failure, and a line of \<open>perror\<close> whose label is the name of the failing
  call when that call is \<open>bind\<close>, \<open>epoll_create1\<close>, \<open>epoll_ctl\<close>, \<open>epoll_wait\<close>,
  \<open>recvfrom\<close> or \<open>sendto\<close>. What the label is after a failure of \<open>socket\<close>,
  \<open>set_reuseport\<close> or \<open>set_nonblock\<close> is left open.
\<close>

theorem fatal_exit:
  "((setup_fails e \<or> list_ex fatal_pass ios) = (snd (main e l0 ios) \<noteq> None)) \<and>
   (\<forall>acts code. main e l0 ios = (acts, Some code) \<longrightarrow>
      code = EXIT_FAILURE \<and> code \<noteq> EXIT_SUCCESS \<and>
      (\<exists>d. diagnostics acts = [d] \<and>
         (if malloc_ok e then \<exists>line label. d = Perror_diag ''main'' line label
          else d = Alloc_diag MAX_BUFSIZE)) \<and>
      (\<exists>f. first_failure e ios = Some f \<and> reports f (diagnostics acts)))"
proof -
  have exits: "(setup_fails e \<or> list_ex fatal_pass ios) = (snd (main e l0 ios) \<noteq> None)"
    by (rule main_exits [symmetric])
  have ended: "code = EXIT_FAILURE \<and> code \<noteq> EXIT_SUCCESS \<and>
      (\<exists>d. diagnostics acts = [d] \<and>
         (if malloc_ok e then \<exists>line label. d = Perror_diag ''main'' line label
          else d = Alloc_diag MAX_BUFSIZE))"
    if "main e l0 ios = (acts, Some code)" for acts code
    using main_ended [OF that] by (simp add: EXIT_FAILURE_def EXIT_SUCCESS_def)
  have site: "\<exists>f. first_failure e ios = Some f \<and> reports f (diagnostics acts)"
    if "main e l0 ios = (acts, Some code)" for acts code
    using that by (rule main_reports)
  from exits ended site show ?thesis by blast
qed

theorem fatal_exit_witness:
  "list_ex fatal_pass [ex_wait_fails] \<and>
   main ex_setup ex_locals [ex_wait_fails] =
     ([Malloc MAX_BUFSIZE True, Socket 3, Fcntl_getfl 3 2, Fcntl_setfl 3 (2 OR O_NONBLOCK) 0,
       Bind 3 5123 ''127.0.0.1'' 0, Setsockopt 3 SOL_SOCKET SO_REUSEPORT 1 0, Epoll_create1 4,
       Epoll_ctl 4 EPOLL_CTL_ADD 3 (EPOLLIN OR EPOLLONESHOT) 0,
       Epoll_wait 4 (WaitFail 9), Perror_diag ''main'' 163 ''epoll_wait'', Close 4, Close 3, Free],
      Some EXIT_FAILURE) \<and>
   snd (main ex_setup ex_locals [ex_wait_fails]) \<noteq> None \<and>
   EXIT_FAILURE \<noteq> EXIT_SUCCESS \<and>
   first_failure ex_setup [ex_wait_fails] = Some F_epoll_wait \<and>
   reports F_epoll_wait
     (diagnostics
       [Malloc MAX_BUFSIZE True, Socket 3, Fcntl_getfl 3 2, Fcntl_setfl 3 (2 OR O_NONBLOCK) 0,
        Bind 3 5123 ''127.0.0.1'' 0, Setsockopt 3 SOL_SOCKET SO_REUSEPORT 1 0, Epoll_create1 4,
        Epoll_ctl 4 EPOLL_CTL_ADD 3 (EPOLLIN OR EPOLLONESHOT) 0,
        Epoll_wait 4 (WaitFail 9), Perror_diag ''main'' 163 ''epoll_wait'', Close 4, Close 3,
        Free])"
proof -
  have "list_ex fatal_pass [ex_wait_fails]"
    by (simp add: fatal_pass_def ex_wait_fails_def ex_io_def EINTR_def)
  with fatal_exit [of ex_setup "[ex_wait_fails]" ex_locals] ex_wait_fails_run
    ex_wait_fails_first
  show ?thesis by (metis option.inject)
qed

subsection \<open>The empty datagram\<close>

text \<open>
  C10 does not hold of the code. A receive of zero bytes sets \<open>datasize\<close> to zero, saves the
  peer and arms writable interest, and the pass for the next writable event calls
  \<open>sendto\<close> once with zero bytes for the saved peer. When that call fails with \<open>EAGAIN\<close>
  the pass re-arms readable interest all the same: the next pass receives the next
  datagram, and the empty one has not been sent back by any successful send. (When the
  call succeeds the empty datagram is sent back: \<open>empty_datagram_sent_back\<close>.)
\<close>

theorem empty_datagram_not_echoed:
  "fst (event_loop ex_locals [ex_empty_recv, ex_send_eagain, ex_io]) =
     [Epoll_wait 4 (WaitReady EPOLLIN),
      Recvfrom 3 MAX_BUFSIZE (RecvOk [] ex_peer 16),
      Epoll_ctl 4 EPOLL_CTL_MOD 3 (EPOLLOUT OR EPOLLONESHOT) 0,
      Epoll_wait 4 (WaitReady EPOLLOUT),
      Sendto 3 0 0 [] ex_peer 16 (SendFail EAGAIN),
      Epoll_ctl 4 EPOLL_CTL_MOD 3 (EPOLLIN OR EPOLLONESHOT) 0,
      Epoll_wait 4 (WaitReady EPOLLIN),
      Recvfrom 3 MAX_BUFSIZE (RecvOk [1, 2, 3] ex_peer 16),
      Epoll_ctl 4 EPOLL_CTL_MOD 3 (EPOLLOUT OR EPOLLONESHOT) 0] \<and>
   env_ok_run ex_locals [ex_empty_recv, ex_send_eagain, ex_io] \<and>
   echo_log_from None (fst (event_loop ex_locals [ex_empty_recv, ex_send_eagain])) =
     Some ([], ex_peer, [])"
  by (simp add: body_defs env_ok_def echo_log_from_def ex_locals_def ex_empty_recv_def
      ex_send_eagain_def ex_io_def epoll_consts SIZEOF_SOCKADDR_def EINTR_def EAGAIN_def
      MAX_BUFSIZE_def)

end
